theory Spec2Isabelle
  imports Complex_Main "HOL-Library.Product_Lexorder"
begin

section \<open>The single-SKU palletizer of lib/calculation-worker.ts\<close>

text \<open>
  The embedding follows lib/calculation-worker.ts function by function.  JavaScript
  numbers that hold dimensions, weights, coordinates and quantities are exact
  rationals (\<open>rat\<close>): the orchestrator accepts any positive quantity, also a
  fractional one, although lib/validation.ts admits whole numbers only.  Numbers that
  the code obtains by \<open>Math.floor\<close> or \<open>Math.ceil\<close>, or as lengths (columns, rows,
  layers, pallets, boxes per layer), are mathematical integers (\<open>int\<close>).  Doubles
  compute exactly on whole numbers up to \<open>2^53\<close>; rounding beyond that, \<open>NaN\<close> and the
  infinities are outside the embedding, and so is the engine's limit on the number of
  arguments of one call.  Where the source starts a search at \<open>Infinity\<close> the model
  uses \<open>None\<close> for "no bound yet".  A division by zero, which yields an infinity or
  \<open>NaN\<close> in the source, is therefore not represented: the orchestrator divides by box
  dimensions it has checked to be positive and by counts that are at least one.  A
  value that may be \<open>null\<close> or \<open>undefined\<close> at the public boundary is an \<open>option\<close>.

  Exceptions are values of \<open>error\<close>.  \<open>new Array(n)\<close> raises a RangeError unless
  \<open>0 \<le> n \<le> 2^32 - 1\<close>, and reading a field of a missing block raises a TypeError;
  both can be caught.  Within that range it is the engine that decides whether it has
  the memory: it may allocate, refuse with a RangeError, or abort the whole process,
  which no \<open>catch\<close> clause sees (\<open>OutOfMemory\<close>).  That decision is the parameter
  \<open>host\<close> of the embedding; it is asked where the source allocates the array of
  targets, and again for the number of placements that the result keeps.
\<close>

datatype error = RangeError | TypeError | OutOfMemory

datatype alloc = Allocated | Refused | Aborted

type_synonym host = "int \<Rightarrow> alloc"

record BoxType =
  box_id :: string
  box_sku :: string
  box_length :: rat
  box_width :: rat
  box_height :: rat
  box_weight :: rat
  box_quantity :: rat
  box_color :: string

record PalletConfig =
  pal_type :: string
  pal_width :: rat
  pal_depth :: rat
  pal_height :: rat
  pal_maxHeight :: rat

record BoxPlacement =
  pl_x :: rat
  pl_z :: rat
  pl_box :: BoxType
  pl_rotation :: nat
  pl_layer :: nat

record PalletResult =
  palletNumber :: nat
  placements :: "BoxPlacement list"
  layers :: nat
  boxesPerLayer :: int
  totalBoxes :: int
  totalWeight :: rat
  efficiency :: rat
  totalHeight :: rat

record CalculationResult =
  res_pallets :: "PalletResult list"
  res_totalPallets :: nat
  res_totalBoxes :: int
  res_totalWeight :: rat
  res_averageEfficiency :: rat
  res_boxDistribution :: "(string \<times> (nat \<times> int) list) list"
  res_error :: "string option"

definition EPS :: rat where
  "EPS = 1 / 1000000"

record Footprint =
  len :: rat
  wid :: rat
  rot :: nat

record LayerBlock =
  cols :: int
  rows :: int
  fp :: Footprint

datatype PatternKind = Grid | SplitX | SplitZ

record LayerPattern =
  kind :: PatternKind
  blocks :: "LayerBlock list"
  usedWidth :: rat
  usedDepth :: rat
  perLayer :: int
  maxCols :: int
  maxRows :: int

record Cell =
  cell_x :: rat
  cell_z :: rat
  cell_fp :: Footprint

subsection \<open>Arithmetic of the host language\<close>

text \<open>\<open>a % b\<close>: the remainder of the truncated division, with the sign of \<open>a\<close>.\<close>

definition js_rem :: "int \<Rightarrow> int \<Rightarrow> int" where
  "js_rem a b = sgn a * (\<bar>a\<bar> mod \<bar>b\<bar>)"

text \<open>The same operator on numbers that need not be whole: \<open>a - b * trunc(a / b)\<close>.\<close>

definition js_fmod :: "rat \<Rightarrow> rat \<Rightarrow> rat" where
  "js_fmod a b = a - b * of_int (if 0 \<le> a / b then \<lfloor>a / b\<rfloor> else \<lceil>a / b\<rceil>)"

text \<open>\<open>Math.floor(a / b)\<close> on two counts.\<close>

definition floor_div :: "int \<Rightarrow> int \<Rightarrow> int" where
  "floor_div a b = \<lfloor>(of_int a :: rat) / of_int b\<rfloor>"

text \<open>\<open>new Array(n).fill(v)\<close>: the language refuses a length that is no array length,
  and the host decides on the others.\<close>

definition newFilledArray :: "host \<Rightarrow> int \<Rightarrow> 'a \<Rightarrow> error + 'a list" where
  "newFilledArray host n v =
     (if n < 0 \<or> n > 4294967295 then Inl RangeError
      else case host n of
             Allocated \<Rightarrow> Inr (replicate (nat n) v)
           | Refused \<Rightarrow> Inl RangeError
           | Aborted \<Rightarrow> Inl OutOfMemory)"

subsection \<open>Geometry\<close>

definition clampCenterInsidePallet ::
  "rat \<Rightarrow> rat \<Rightarrow> rat \<Rightarrow> rat \<Rightarrow> rat \<Rightarrow> rat \<Rightarrow> rat \<times> rat" where
  "clampCenterInsidePallet cx cz flen fwid palletW palletD =
     (let halfW = palletW / 2; halfD = palletD / 2;
          minCx = - halfW + flen / 2 + EPS;
          maxCx = halfW - flen / 2 - EPS;
          minCz = - halfD + fwid / 2 + EPS;
          maxCz = halfD - fwid / 2 - EPS
      in (max minCx (min maxCx cx), max minCz (min maxCz cz)))"

subsection \<open>Pattern search\<close>

definition buildGridPattern :: "rat \<Rightarrow> rat \<Rightarrow> Footprint \<Rightarrow> LayerPattern" where
  "buildGridPattern width depth f =
     (let cs = \<lfloor>width / len f\<rfloor>;
          rs = \<lfloor>depth / wid f\<rfloor>
      in \<lparr> kind = Grid,
           blocks = [\<lparr> cols = cs, rows = rs, fp = f \<rparr>],
           usedWidth = of_int cs * len f,
           usedDepth = of_int rs * wid f,
           perLayer = max 0 cs * max 0 rs,
           maxCols = cs, maxRows = rs \<rparr>)"

text \<open>The body of the sweep of \<open>buildSplitXPatterns\<close> for one \<open>cLeft\<close>.\<close>

definition splitXPattern :: "rat \<Rightarrow> rat \<Rightarrow> Footprint \<Rightarrow> Footprint \<Rightarrow> int \<Rightarrow> LayerPattern" where
  "splitXPattern width depth left right cLeft =
     (let remainingW = width - of_int cLeft * len left;
          cRight = \<lfloor>remainingW / len right\<rfloor>;
          rowsLeft = \<lfloor>depth / wid left\<rfloor>;
          rowsRight = \<lfloor>depth / wid right\<rfloor>
      in \<lparr> kind = SplitX,
           blocks = [\<lparr> cols = cLeft, rows = rowsLeft, fp = left \<rparr>,
                     \<lparr> cols = cRight, rows = rowsRight, fp = right \<rparr>],
           usedWidth = of_int cLeft * len left + of_int cRight * len right,
           usedDepth = max (of_int rowsLeft * wid left) (of_int rowsRight * wid right),
           perLayer = cLeft * rowsLeft + cRight * rowsRight,
           maxCols = max cLeft cRight, maxRows = max rowsLeft rowsRight \<rparr>)"

function splitXLoop ::
  "rat \<Rightarrow> rat \<Rightarrow> Footprint \<Rightarrow> Footprint \<Rightarrow> int \<Rightarrow> int \<Rightarrow> LayerPattern list" where
  "splitXLoop width depth left right maxLeftCols cLeft =
     (if cLeft \<le> maxLeftCols then
        (if width - of_int cLeft * len left < 0 then []
         else splitXPattern width depth left right cLeft
              # splitXLoop width depth left right maxLeftCols (cLeft + 1))
      else [])"
  by pat_completeness auto
termination
  by (relation "measure (\<lambda>(width, depth, left, right, maxLeftCols, cLeft).
        nat (maxLeftCols + 1 - cLeft))") auto

definition buildSplitXPatterns :: "rat \<Rightarrow> rat \<Rightarrow> Footprint \<Rightarrow> Footprint \<Rightarrow> LayerPattern list" where
  "buildSplitXPatterns width depth left right =
     splitXLoop width depth left right \<lfloor>width / len left\<rfloor> 1"

text \<open>The body of the sweep of \<open>buildSplitZPatterns\<close> for one \<open>rFront\<close>.\<close>

definition splitZPattern :: "rat \<Rightarrow> rat \<Rightarrow> Footprint \<Rightarrow> Footprint \<Rightarrow> int \<Rightarrow> LayerPattern" where
  "splitZPattern width depth front back rFront =
     (let remainingD = depth - of_int rFront * wid front;
          rBack = \<lfloor>remainingD / wid back\<rfloor>;
          colsFront = \<lfloor>width / len front\<rfloor>;
          colsBack = \<lfloor>width / len back\<rfloor>
      in \<lparr> kind = SplitZ,
           blocks = [\<lparr> cols = colsFront, rows = rFront, fp = front \<rparr>,
                     \<lparr> cols = colsBack, rows = rBack, fp = back \<rparr>],
           usedWidth = max (of_int colsFront * len front) (of_int colsBack * len back),
           usedDepth = of_int rFront * wid front + of_int rBack * wid back,
           perLayer = rFront * colsFront + rBack * colsBack,
           maxCols = max colsFront colsBack, maxRows = max rFront rBack \<rparr>)"

function splitZLoop ::
  "rat \<Rightarrow> rat \<Rightarrow> Footprint \<Rightarrow> Footprint \<Rightarrow> int \<Rightarrow> int \<Rightarrow> LayerPattern list" where
  "splitZLoop width depth front back maxFrontRows rFront =
     (if rFront \<le> maxFrontRows then
        (if depth - of_int rFront * wid front < 0 then []
         else splitZPattern width depth front back rFront
              # splitZLoop width depth front back maxFrontRows (rFront + 1))
      else [])"
  by pat_completeness auto
termination
  by (relation "measure (\<lambda>(width, depth, front, back, maxFrontRows, rFront).
        nat (maxFrontRows + 1 - rFront))") auto

definition buildSplitZPatterns :: "rat \<Rightarrow> rat \<Rightarrow> Footprint \<Rightarrow> Footprint \<Rightarrow> LayerPattern list" where
  "buildSplitZPatterns width depth front back =
     splitZLoop width depth front back \<lfloor>depth / wid front\<rfloor> 1"

definition candidates :: "rat \<Rightarrow> rat \<Rightarrow> Footprint \<Rightarrow> Footprint \<Rightarrow> LayerPattern list" where
  "candidates width depth a b =
     [buildGridPattern width depth a, buildGridPattern width depth b]
     @ buildSplitXPatterns width depth a b
     @ buildSplitXPatterns width depth b a
     @ buildSplitZPatterns width depth a b
     @ buildSplitZPatterns width depth b a"

definition fits :: "rat \<Rightarrow> rat \<Rightarrow> LayerPattern \<Rightarrow> bool" where
  "fits width depth c \<longleftrightarrow>
     perLayer c > 0 \<and> usedWidth c - EPS \<le> width \<and> usedDepth c - EPS \<le> depth"

definition viable :: "rat \<Rightarrow> rat \<Rightarrow> Footprint \<Rightarrow> Footprint \<Rightarrow> LayerPattern list" where
  "viable width depth a b = filter (fits width depth) (candidates width depth a b)"

definition scoreTuple :: "rat \<Rightarrow> LayerPattern \<Rightarrow> rat list" where
  "scoreTuple totalQty c =
     (let usedArea = usedWidth c * usedDepth c;
          squareness = - \<bar>usedWidth c - usedDepth c\<bar>;
          simplicity = - (int (length (blocks c)) - 1);
          divisible = (if js_fmod totalQty (of_int (perLayer c)) = 0 then 1 else 0);
          remainder = js_fmod totalQty (of_int (perLayer c))
      in [of_int (perLayer c), usedArea, squareness, of_int simplicity, divisible,
          - remainder])"

text \<open>The inner loop over the positions \<open>k\<close> of the two keys; \<open>better\<close> is its flag.\<close>

fun better :: "rat list \<Rightarrow> rat list \<Rightarrow> bool" where
  "better (x # xs) (y # ys) = (if x > y then True else if x < y then False else better xs ys)"
| "better _ _ = False"

text \<open>The selection loop \<open>for (i = 1; i < viable.length; i++)\<close> with its state
  \<open>best\<close>, \<open>bestKey\<close>.\<close>

fun selectBest :: "rat \<Rightarrow> LayerPattern \<Rightarrow> rat list \<Rightarrow> LayerPattern list \<Rightarrow> LayerPattern" where
  "selectBest totalQty best bestKey [] = best"
| "selectBest totalQty best bestKey (c # cs) =
     (let key = scoreTuple totalQty c
      in if better key bestKey then selectBest totalQty c key cs
         else selectBest totalQty best bestKey cs)"

definition chooseBestLayerPattern ::
  "rat \<Rightarrow> rat \<Rightarrow> Footprint \<Rightarrow> Footprint \<Rightarrow> rat \<Rightarrow> LayerPattern option" where
  "chooseBestLayerPattern width depth a b totalQty =
     (case viable width depth a b of
        [] \<Rightarrow> None
      | v # vs \<Rightarrow> Some (selectBest totalQty v (scoreTuple totalQty v) vs))"

subsection \<open>Materializing a layer\<close>

text \<open>The nested loops \<open>for r < rows, for c < cols\<close> of one block whose first cell is
  at \<open>(x0, z0)\<close>.\<close>

definition blockCells :: "rat \<Rightarrow> rat \<Rightarrow> LayerBlock \<Rightarrow> Cell list" where
  "blockCells x0 z0 b =
     concat (map (\<lambda>r. map (\<lambda>c. \<lparr> cell_x = x0 + of_nat c * len (fp b),
                                    cell_z = z0 + of_nat r * wid (fp b),
                                    cell_fp = fp b \<rparr>)
                            [0 ..< nat (cols b)])
                 [0 ..< nat (rows b)])"

definition materializeLayerCells :: "LayerPattern \<Rightarrow> rat \<Rightarrow> rat \<Rightarrow> error + Cell list" where
  "materializeLayerCells pattern palletW palletD =
     (let offsetX = (palletW - usedWidth pattern) / 2;
          offsetZ = (palletD - usedDepth pattern) / 2
      in case kind pattern of
           Grid \<Rightarrow>
             (case blocks pattern of
                b # _ \<Rightarrow>
                  Inr (blockCells
                         (offsetX + (usedWidth pattern - of_int (cols b) * len (fp b)) / 2)
                         (offsetZ + (usedDepth pattern - of_int (rows b) * wid (fp b)) / 2) b)
              | [] \<Rightarrow> Inl TypeError)
         | SplitX \<Rightarrow>
             (case blocks pattern of
                left # right # _ \<Rightarrow>
                  Inr (blockCells offsetX
                         (offsetZ + (usedDepth pattern - of_int (rows left) * wid (fp left)) / 2) left
                       @ blockCells (offsetX + of_int (cols left) * len (fp left))
                         (offsetZ + (usedDepth pattern - of_int (rows right) * wid (fp right)) / 2) right)
              | _ \<Rightarrow> Inl TypeError)
         | SplitZ \<Rightarrow>
             (case blocks pattern of
                front # back # _ \<Rightarrow>
                  Inr (blockCells
                         (offsetX + (usedWidth pattern - of_int (cols front) * len (fp front)) / 2)
                         offsetZ front
                       @ blockCells
                         (offsetX + (usedWidth pattern - of_int (cols back) * len (fp back)) / 2)
                         (offsetZ + of_int (rows front) * wid (fp front)) back)
              | _ \<Rightarrow> Inl TypeError))"

subsection \<open>The partial-layer selector\<close>

text \<open>\<open>Math.min(...xs)\<close> and \<open>Math.max(...xs)\<close> of a non-empty list.\<close>

definition minOf :: "rat list \<Rightarrow> rat" where
  "minOf xs = foldl min (hd xs) (tl xs)"

definition maxOf :: "rat list \<Rightarrow> rat" where
  "maxOf xs = foldl max (hd xs) (tl xs)"

definition dist2 :: "Cell \<Rightarrow> rat \<Rightarrow> rat \<Rightarrow> rat" where
  "dist2 cell px pz =
     (let cx = cell_x cell + len (cell_fp cell) / 2;
          cz = cell_z cell + wid (cell_fp cell) / 2
      in (cx - px) * (cx - px) + (cz - pz) * (cz - pz))"

definition edgeScore :: "rat \<Rightarrow> rat \<Rightarrow> rat \<Rightarrow> rat \<Rightarrow> Cell \<Rightarrow> rat" where
  "edgeScore minX maxX minZ maxZ cell =
     (let cx = cell_x cell + len (cell_fp cell) / 2;
          cz = cell_z cell + wid (cell_fp cell) / 2;
          left = cx - minX;
          right = maxX - cx;
          front = cz - minZ;
          back = maxZ - cz
      in min (min (min left right) front) back)"

text \<open>The scan \<open>for (const i of remaining) { if (f(i) < bestD) { bestD = f(i); best = i } }\<close>;
  \<open>best = None\<close> is the source's \<open>-1\<close> and \<open>bestD = None\<close> its \<open>Infinity\<close>.\<close>

fun nearest :: "(nat \<Rightarrow> rat) \<Rightarrow> nat list \<Rightarrow> nat option \<Rightarrow> rat option \<Rightarrow> nat option" where
  "nearest f [] best bestD = best"
| "nearest f (i # rest) best bestD =
     (let d = f i
      in if (case bestD of None \<Rightarrow> True | Some bd \<Rightarrow> d < bd)
         then nearest f rest (Some i) (Some d)
         else nearest f rest best bestD)"

text \<open>The loop over the four corners.  \<open>remaining\<close> is the Set of indices in insertion
  order, \<open>picked\<close> the indices chosen so far.\<close>

fun cornerLoop ::
  "Cell list \<Rightarrow> rat \<Rightarrow> ((Cell \<Rightarrow> bool) \<times> rat \<times> rat) list \<Rightarrow> nat list \<Rightarrow> nat list
     \<Rightarrow> nat list \<times> nat list" where
  "cornerLoop cells r [] picked remaining = (picked, remaining)"
| "cornerLoop cells r ((isCorner, px, pz) # ks) picked remaining =
     (if of_nat (length picked) < r then
        (case find (\<lambda>i. i \<in> set remaining \<and> isCorner (cells ! i)) [0 ..< length cells] of
           Some exactIdx \<Rightarrow>
             cornerLoop cells r ks (picked @ [exactIdx]) (removeAll exactIdx remaining)
         | None \<Rightarrow>
             (case nearest (\<lambda>i. dist2 (cells ! i) px pz) remaining None None of
                Some best \<Rightarrow> cornerLoop cells r ks (picked @ [best]) (removeAll best remaining)
              | None \<Rightarrow> cornerLoop cells r ks picked remaining))
      else (picked, remaining))"

lemma nearest_mem:
  "nearest f rest best bestD = Some i \<Longrightarrow> i \<in> set rest \<or> best = Some i"
  by (induction f rest best bestD rule: nearest.induct) (auto simp: Let_def split: if_splits)

function edgeLoop :: "Cell list \<Rightarrow> rat \<Rightarrow> (Cell \<Rightarrow> rat) \<Rightarrow> nat list \<Rightarrow> nat list \<Rightarrow> nat list" where
  "edgeLoop cells r score picked remaining =
     (if of_nat (length picked) < r \<and> remaining \<noteq> [] then
        (case nearest (\<lambda>i. score (cells ! i)) remaining None None of
           Some best \<Rightarrow> edgeLoop cells r score (picked @ [best]) (removeAll best remaining)
         | None \<Rightarrow> picked)
      else picked)"
  by pat_completeness auto
termination
proof (relation "measure (\<lambda>(cells, r, score, picked, remaining). length remaining)")
  show "wf (measure (\<lambda>(cells, r, score, picked, remaining). length remaining))"
    by simp
next
  fix cells :: "Cell list" and r :: rat and score :: "Cell \<Rightarrow> rat"
    and picked remaining :: "nat list" and best :: nat
  assume "nearest (\<lambda>i. score (cells ! i)) remaining None None = Some best"
  then have "best \<in> set remaining"
    using nearest_mem by fastforce
  then have "length (removeAll best remaining) < length remaining"
    by (induction remaining) (auto simp: less_Suc_eq_le length_removeAll_less_eq)
  then show "((cells, r, score, picked @ [best], removeAll best remaining),
              (cells, r, score, picked, remaining))
             \<in> measure (\<lambda>(cells, r, score, picked, remaining). length remaining)"
    by simp
qed

text \<open>With no cells the bounds of the source stay infinite, no index is found by either
  loop and the result is empty; that case is the second branch.  Otherwise the bounds
  are the minima and maxima over the cells.\<close>

definition pickCornerEdgePartialCells :: "Cell list \<Rightarrow> rat \<Rightarrow> Cell list" where
  "pickCornerEdgePartialCells cells r =
     (if r \<le> 0 then []
      else if cells = [] then []
      else
        let minX = minOf (map cell_x cells);
            minZ = minOf (map cell_z cells);
            maxX = maxOf (map (\<lambda>c. cell_x c + len (cell_fp c)) cells);
            maxZ = maxOf (map (\<lambda>c. cell_z c + wid (cell_fp c)) cells);
            minCol = minOf (map cell_x cells);
            maxCol = maxOf (map cell_x cells);
            minRow = minOf (map cell_z cells);
            maxRow = maxOf (map cell_z cells);
            corners =
              [(\<lambda>c. cell_x c = minCol \<and> cell_z c = minRow, minX, minZ),
               (\<lambda>c. cell_x c = minCol \<and> cell_z c = maxRow, minX, maxZ),
               (\<lambda>c. cell_x c = maxCol \<and> cell_z c = minRow, maxX, minZ),
               (\<lambda>c. cell_x c = maxCol \<and> cell_z c = maxRow, maxX, maxZ)];
            (picked1, remaining1) = cornerLoop cells r corners [] [0 ..< length cells];
            picked2 = edgeLoop cells r (edgeScore minX maxX minZ maxZ) picked1 remaining1
        in map (\<lambda>i. cells ! i) picked2)"

subsection \<open>Target distribution: full layers first\<close>

text \<open>The first loop: pallet \<open>i\<close> gets one of the \<open>extraLayers\<close> while any is left, and
  is clamped to \<open>layersMax\<close>.\<close>

fun distributeLayers :: "int list \<Rightarrow> int \<Rightarrow> int \<Rightarrow> int list" where
  "distributeLayers [] extraLayers layersMax = []"
| "distributeLayers (l # ls) extraLayers layersMax =
     (if extraLayers > 0
      then min (l + 1) layersMax # distributeLayers ls (extraLayers - 1) layersMax
      else min l layersMax # distributeLayers ls extraLayers layersMax)"

text \<open>The loop \<open>for (i = pallets - 1; i >= 0; i--)\<close> that puts the remainder on the last
  pallet with a spare layer; the last argument is \<open>i + 1\<close>.  It returns the counts and
  the remainder still to place.  The counts are numbers like the total: a fractional
  remainder makes one of them fractional.\<close>

fun placeRemainder :: "int list \<Rightarrow> int \<Rightarrow> rat list \<Rightarrow> rat \<Rightarrow> nat \<Rightarrow> rat list \<times> rat" where
  "placeRemainder layersPerPallet layersMax counts rem 0 = (counts, rem)"
| "placeRemainder layersPerPallet layersMax counts rem (Suc i) =
     (if layersPerPallet ! i < layersMax then (counts[i := counts ! i + rem], 0)
      else placeRemainder layersPerPallet layersMax counts rem i)"

text \<open>The defensive loop \<open>while (rem > 0 && idx >= 0)\<close>; the last argument is
  \<open>idx + 1\<close>.\<close>

fun spreadLeftover :: "int \<Rightarrow> rat list \<Rightarrow> rat \<Rightarrow> nat \<Rightarrow> rat list \<times> rat" where
  "spreadLeftover K counts rem 0 = (counts, rem)"
| "spreadLeftover K counts rem (Suc idx) =
     (if rem > 0 then
        (let m = js_fmod (counts ! idx) (of_int K);
             room = of_int K - (if m = 0 then of_int K else m);
             taken = min rem room
         in spreadLeftover K (counts[idx := counts ! idx + taken]) (rem - taken) idx)
      else (counts, rem))"

definition buildTargetsByFullLayers ::
  "host \<Rightarrow> rat \<Rightarrow> int \<Rightarrow> int \<Rightarrow> int \<Rightarrow> error + rat list" where
  "buildTargetsByFullLayers host total_qty pallets K layersMax =
     (let totalFullLayers = \<lfloor>total_qty / of_int K\<rfloor>;
          rem = js_fmod total_qty (of_int K);
          baseLayers = floor_div totalFullLayers pallets;
          extraLayers = js_rem totalFullLayers pallets
      in case newFilledArray host pallets baseLayers of
           Inl e \<Rightarrow> Inl e
         | Inr filled \<Rightarrow>
             (let layersPerPallet = distributeLayers filled extraLayers layersMax;
                  counts = map (\<lambda>L. of_int (L * K)) layersPerPallet;
                  (counts1, rem1) =
                    (if rem > 0
                     then placeRemainder layersPerPallet layersMax counts rem (nat pallets)
                     else (counts, rem));
                  (counts2, rem2) = spreadLeftover K counts1 rem1 (nat pallets);
                  diff = total_qty - sum_list counts2
              in Inr (if diff \<noteq> 0 \<and> counts2 \<noteq> []
                      then counts2[length counts2 - 1 := counts2 ! (length counts2 - 1) + diff]
                      else counts2)))"

subsection \<open>Placements of one pallet\<close>

text \<open>Decimal digits of the id counter, as the template string prints it.\<close>

function showNat :: "nat \<Rightarrow> string" where
  "showNat n =
     (if n < 10 then [char_of (48 + n)]
      else showNat (n div 10) @ [char_of (48 + n mod 10)])"
  by pat_completeness auto
termination
  by (relation "measure id") auto

definition makeId :: "BoxType \<Rightarrow> nat \<Rightarrow> string" where
  "makeId base idCounter = box_id base @ ''-'' @ showNat idCounter"

text \<open>One pass of the body of \<open>for (const cell of cells)\<close>.\<close>

definition placeCell :: "BoxType \<Rightarrow> PalletConfig \<Rightarrow> nat \<Rightarrow> Cell \<Rightarrow> nat \<Rightarrow> BoxPlacement" where
  "placeCell base pallet layerIndex cell idCounter =
     (let cx = (cell_x cell + len (cell_fp cell) / 2) - pal_width pallet / 2;
          cz = (cell_z cell + wid (cell_fp cell) / 2) - pal_depth pallet / 2;
          (cx', cz') = clampCenterInsidePallet cx cz (len (cell_fp cell)) (wid (cell_fp cell))
                         (pal_width pallet) (pal_depth pallet)
      in \<lparr> pl_x = cx', pl_z = cz',
           pl_box = base \<lparr> box_id := makeId base idCounter \<rparr>,
           pl_rotation = rot (cell_fp cell),
           pl_layer = layerIndex \<rparr>)"

text \<open>The loop over the cells of one layer; it returns the placements pushed and the id
  counter after them.\<close>

fun placeCells ::
  "BoxType \<Rightarrow> PalletConfig \<Rightarrow> nat \<Rightarrow> Cell list \<Rightarrow> nat \<Rightarrow> BoxPlacement list \<times> nat" where
  "placeCells base pallet layerIndex [] idCounter = ([], idCounter)"
| "placeCells base pallet layerIndex (cell # cells) idCounter =
     (let (ps, idCounter') = placeCells base pallet layerIndex cells (idCounter + 1)
      in (placeCell base pallet layerIndex cell idCounter # ps, idCounter'))"

text \<open>The loop \<open>for (i = 0; i < fullLayers; i++)\<close>; the fourth argument counts the
  iterations left.\<close>

fun fullLayerLoop ::
  "LayerPattern \<Rightarrow> BoxType \<Rightarrow> PalletConfig \<Rightarrow> nat \<Rightarrow> nat \<Rightarrow> nat
     \<Rightarrow> error + BoxPlacement list \<times> nat" where
  "fullLayerLoop pattern base pallet 0 layerIndex idCounter = Inr ([], idCounter)"
| "fullLayerLoop pattern base pallet (Suc n) layerIndex idCounter =
     (case materializeLayerCells pattern (pal_width pallet) (pal_depth pallet) of
        Inl e \<Rightarrow> Inl e
      | Inr cells \<Rightarrow>
          (let (ps, idCounter') = placeCells base pallet layerIndex cells idCounter
           in case fullLayerLoop pattern base pallet n (layerIndex + 1) idCounter' of
                Inl e \<Rightarrow> Inl e
              | Inr (qs, idCounter'') \<Rightarrow> Inr (ps @ qs, idCounter'')))"

text \<open>The result is the placements, \<open>layersUsed\<close> and the id counter after the pallet.
  The parameter \<open>allFull\<close> is received and not read, as in the source.\<close>

definition buildPlacementsForPallet ::
  "rat \<Rightarrow> int \<Rightarrow> LayerPattern \<Rightarrow> BoxType \<Rightarrow> PalletConfig \<Rightarrow> nat \<Rightarrow> bool
     \<Rightarrow> error + BoxPlacement list \<times> nat \<times> nat" where
  "buildPlacementsForPallet targetCount layersMax pattern base pallet idCounter allFull =
     (let K = max 1 (perLayer pattern);
          fullLayers = min \<lfloor>targetCount / of_int K\<rfloor> layersMax
      in case fullLayerLoop pattern base pallet (nat fullLayers) 0 idCounter of
           Inl e \<Rightarrow> Inl e
         | Inr (ps, idCounter') \<Rightarrow>
             (let remaining = targetCount - of_int (int (nat fullLayers) * K);
                  layerIndex = nat fullLayers
              in if remaining > 0 \<and> int layerIndex < layersMax then
                   (case materializeLayerCells pattern (pal_width pallet) (pal_depth pallet) of
                      Inl e \<Rightarrow> Inl e
                    | Inr cells \<Rightarrow>
                        (let picked = pickCornerEdgePartialCells cells remaining;
                             (qs, idCounter'') = placeCells base pallet layerIndex picked idCounter'
                         in Inr (ps @ qs, layerIndex + 1, idCounter'')))
                 else Inr (ps, layerIndex, idCounter')))"

subsection \<open>The orchestrator\<close>

definition emptyResult :: "string \<Rightarrow> CalculationResult" where
  "emptyResult err =
     \<lparr> res_pallets = [], res_totalPallets = 0, res_totalBoxes = 0, res_totalWeight = 0,
       res_averageEfficiency = 0, res_boxDistribution = [], res_error = Some err \<rparr>"

definition isValidBox :: "BoxType option \<Rightarrow> bool" where
  "isValidBox b =
     (case b of
        None \<Rightarrow> False
      | Some bx \<Rightarrow> box_length bx > 0 \<and> box_width bx > 0 \<and> box_height bx > 0
                   \<and> box_quantity bx > 0)"

definition validBoxes :: "BoxType option list option \<Rightarrow> BoxType list" where
  "validBoxes boxes =
     map the (filter isValidBox (case boxes of None \<Rightarrow> [] | Some bs \<Rightarrow> bs))"

text \<open>The loop \<open>for (p = 0; p < targets.length; p++)\<close> over the targets still to
  serve, with the pallet index \<open>p\<close> and the shared id counter.\<close>

fun palletLoop ::
  "LayerPattern \<Rightarrow> BoxType \<Rightarrow> PalletConfig \<Rightarrow> int \<Rightarrow> int \<Rightarrow> bool \<Rightarrow> rat list \<Rightarrow> nat \<Rightarrow> nat
     \<Rightarrow> error + PalletResult list" where
  "palletLoop pattern base pallet K layersMax allFull [] p idCounter = Inr []"
| "palletLoop pattern base pallet K layersMax allFull (target # targets) p idCounter =
     (let t = min target (of_int (K * layersMax))
      in case buildPlacementsForPallet t layersMax pattern base pallet idCounter allFull of
           Inl e \<Rightarrow> Inl e
         | Inr (placed, layersUsed, idCounter') \<Rightarrow>
             (let count = int (length placed);
                  usedVol = of_int count * box_length base * box_width base * box_height base;
                  capVol = pal_width pallet * pal_depth pallet
                             * (pal_maxHeight pallet - pal_height pallet);
                  eff = min 100 ((usedVol / max capVol EPS) * 100);
                  pr = \<lparr> palletNumber = p + 1,
                         placements = placed,
                         layers = layersUsed,
                         boxesPerLayer = K,
                         totalBoxes = count,
                         totalWeight = of_int count * box_weight base,
                         efficiency = eff,
                         totalHeight = pal_height pallet + of_nat layersUsed * box_height base \<rparr>
              in case palletLoop pattern base pallet K layersMax allFull targets (p + 1) idCounter' of
                   Inl e \<Rightarrow> Inl e
                 | Inr rest \<Rightarrow> Inr (pr # rest)))"

text \<open>The orchestrator.  The result keeps every placement of every pallet; whether the
  engine can hold that many is the second question to the host, put here once, for
  their total number, where the loop has built them all.\<close>

definition performCalc ::
  "host \<Rightarrow> BoxType option list option \<Rightarrow> PalletConfig option \<Rightarrow> error + CalculationResult" where
  "performCalc host boxes pallet =
     (case pallet of
        None \<Rightarrow> Inr (emptyResult ''Invalid pallet configuration'')
      | Some pal \<Rightarrow>
          if pal_width pal \<le> 0 \<or> pal_depth pal \<le> 0 \<or> pal_maxHeight pal \<le> pal_height pal
          then Inr (emptyResult ''Invalid pallet configuration'')
          else
            (case validBoxes boxes of
               [] \<Rightarrow> Inr (emptyResult ''No valid boxes with dimensions defined'')
             | v # vs \<Rightarrow>
                 (let totalQty = sum_list (map box_quantity (v # vs));
                      base = v \<lparr> box_quantity := totalQty \<rparr>;
                      fp0 = \<lparr> len = box_length base, wid = box_width base, rot = 0 \<rparr>;
                      fp90 = \<lparr> len = box_width base, wid = box_length base, rot = 90 \<rparr>
                  in case chooseBestLayerPattern (pal_width pal) (pal_depth pal) fp0 fp90 totalQty of
                       None \<Rightarrow> Inr (emptyResult ''Box footprint does not fit on pallet area'')
                     | Some pattern \<Rightarrow>
                         if perLayer pattern = 0
                         then Inr (emptyResult ''Box footprint does not fit on pallet area'')
                         else
                           (let K = perLayer pattern;
                                layersMax =
                                  \<lfloor>((pal_maxHeight pal - pal_height pal) + EPS) / box_height base\<rfloor>
                            in if layersMax \<le> 0
                               then Inr (emptyResult ''No vertical clearance for a single layer'')
                               else
                                 (let capacityPerPallet = K * layersMax;
                                      minPallets =
                                        max 1 \<lceil>totalQty / of_int (max 1 capacityPerPallet)\<rceil>
                                  in case buildTargetsByFullLayers host totalQty minPallets K
                                            layersMax of
                                       Inl e \<Rightarrow> Inl e
                                     | Inr targets \<Rightarrow>
                                         (let allFull =
                                                list_all (\<lambda>t. js_fmod t (of_int K) = 0) targets
                                          in case palletLoop pattern base pal K layersMax allFull
                                                    targets 0 0 of
                                               Inl e \<Rightarrow> Inl e
                                             | Inr palletsOut \<Rightarrow>
                                                 (case host (sum_list (map totalBoxes palletsOut)) of
                                                    Refused \<Rightarrow> Inl RangeError
                                                  | Aborted \<Rightarrow> Inl OutOfMemory
                                                  | Allocated \<Rightarrow>
                                                      (let n = length palletsOut
                                                       in Inr \<lparr> res_pallets = palletsOut,
                                                             res_totalPallets = n,
                                                             res_totalBoxes =
                                                               sum_list (map totalBoxes palletsOut),
                                                             res_totalWeight =
                                                               sum_list (map totalWeight palletsOut),
                                                             res_averageEfficiency =
                                                               (if n \<noteq> 0
                                                                then sum_list
                                                                       (map efficiency palletsOut)
                                                                     / of_nat n
                                                                else 0),
                                                             res_boxDistribution =
                                                               [(box_sku base,
                                                                 map (\<lambda>pr. (palletNumber pr,
                                                                             totalBoxes pr))
                                                                   palletsOut)],
                                                             res_error = None \<rparr>))))))))"

text \<open>The public entry point.  \<open>Some r\<close>: the promise resolves with \<open>r\<close>, the value of
  \<open>performCalc\<close> or, when \<open>performCalc\<close> throws, the catch-all result.  \<open>None\<close>: the
  engine was aborted, the \<open>catch\<close> clause never ran and the promise is never settled.
  The promise has no way of being rejected: \<open>reject\<close> is not even bound.  The third
  argument is the source's \<open>_pattern\<close>.\<close>

definition calculateMultiPalletLayout ::
  "host \<Rightarrow> BoxType option list option \<Rightarrow> PalletConfig option \<Rightarrow> string
     \<Rightarrow> CalculationResult option" where
  "calculateMultiPalletLayout host boxes pallet pattern =
     (case performCalc host boxes pallet of
        Inr r \<Rightarrow> Some r
      | Inl OutOfMemory \<Rightarrow> None
      | Inl e \<Rightarrow> Some (emptyResult ''Calculation failed''))"

subsection \<open>Concrete inputs\<close>

definition mkBox :: "rat \<Rightarrow> rat \<Rightarrow> rat \<Rightarrow> rat \<Rightarrow> BoxType" where
  "mkBox l w h q =
     \<lparr> box_id = ''box'', box_sku = ''SKU'', box_length = l, box_width = w, box_height = h,
       box_weight = 5, box_quantity = q, box_color = ''tan'' \<rparr>"

definition mkPallet :: "rat \<Rightarrow> rat \<Rightarrow> rat \<Rightarrow> rat \<Rightarrow> PalletConfig" where
  "mkPallet w d h m =
     \<lparr> pal_type = ''custom'', pal_width = w, pal_depth = d, pal_height = h, pal_maxHeight = m \<rparr>"

text \<open>A host of the kind met in practice: it allocates up to a hundred million
  elements, refuses larger requests with a RangeError, and is aborted by a request for
  the largest array length \<open>2^32 - 1\<close>.\<close>

definition demoHost :: host where
  "demoHost n =
     (if n \<le> 100000000 then Allocated else if n < 4294967295 then Refused else Aborted)"

text \<open>A 2 x 3 box in its two orientations, the layer that the selected pattern
  materializes for it on a 5 x 4 deck, and an input with a missing entry and a box of
  length zero that are filtered out.\<close>

definition demoA :: Footprint where
  "demoA = \<lparr> len = 2, wid = 3, rot = 0 \<rparr>"

definition demoB :: Footprint where
  "demoB = \<lparr> len = 3, wid = 2, rot = 90 \<rparr>"

definition demoCells :: "Cell list" where
  "demoCells =
     [\<lparr> cell_x = 0, cell_z = 1 / 2, cell_fp = demoA \<rparr>,
      \<lparr> cell_x = 2, cell_z = 0, cell_fp = demoB \<rparr>,
      \<lparr> cell_x = 2, cell_z = 2, cell_fp = demoB \<rparr>]"

definition demoBoxes :: "BoxType option list option" where
  "demoBoxes = Some [Some (mkBox 2 3 1 3), None, Some (mkBox 0 3 1 7), Some (mkBox 2 3 1 1)]"

definition demoPallet :: PalletConfig where
  "demoPallet = mkPallet 5 4 0 10"

definition demoResult :: CalculationResult where
  "demoResult = projr (performCalc demoHost demoBoxes (Some demoPallet))"



text \<open>The deck of the counterexample to the capacity bound as stated: the clearance
  \<open>7.9999995\<close> is less than one box height \<open>8\<close> by less than \<open>1e-6\<close>.\<close>

definition tightPallet :: PalletConfig where
  "tightPallet = mkPallet 48 40 5 (129999995 / 10000000)"

definition tightResult :: CalculationResult where
  "tightResult =
     projr (performCalc demoHost (Some [Some (mkBox 12 10 8 1)]) (Some tightPallet))"

definition demoPattern :: LayerPattern where
  "demoPattern = the (chooseBestLayerPattern 5 4 demoA demoB 4)"

text \<open>A box whose footprint is the whole deck, the pattern selected for it and the
  result.\<close>

definition fullDeckBoxes :: "BoxType option list option" where
  "fullDeckBoxes = Some [Some (mkBox 48 40 10 1)]"

definition fullDeckPallet :: PalletConfig where
  "fullDeckPallet = mkPallet 48 40 5 60"

definition fullDeckPattern :: LayerPattern where
  "fullDeckPattern =
     the (chooseBestLayerPattern 48 40 \<lparr>len = 48, wid = 40, rot = 0\<rparr>
            \<lparr>len = 40, wid = 48, rot = 90\<rparr> 1)"

definition fullDeckResult :: CalculationResult where
  "fullDeckResult = projr (performCalc demoHost fullDeckBoxes (Some fullDeckPallet))"

subsection \<open>The properties in the words of the specification\<close>

text \<open>The ranking tuple in the words of the specification, ordered lexicographically
  (the order of \<open>HOL-Library.Product_Lexorder\<close>).\<close>

definition specRankKey :: "int \<Rightarrow> LayerPattern \<Rightarrow> int \<times> rat \<times> rat \<times> int \<times> int \<times> int" where
  "specRankKey totalQty c =
     (perLayer c,
      usedWidth c * usedDepth c,
      - \<bar>usedWidth c - usedDepth c\<bar>,
      - (int (length (blocks c)) - 1),
      (if totalQty mod perLayer c = 0 then 1 else 0),
      - (totalQty mod perLayer c))"

text \<open>The distribution in the words of the specification: pallet \<open>i\<close> gets
  \<open>floor(floor(Q/K)/P)\<close> layers, one more if it is among the first
  \<open>floor(Q/K) mod P\<close> pallets, clamped to \<open>L\<close>; its target is that many full layers,
  plus the remainder \<open>Q mod K\<close> if it is the last pallet with a spare layer.\<close>

definition specLayers :: "int \<Rightarrow> int \<Rightarrow> int \<Rightarrow> int \<Rightarrow> nat \<Rightarrow> int" where
  "specLayers Q P K L i =
     min (Q div K div P + (if int i < (Q div K) mod P then 1 else 0)) L"

definition specTarget :: "int \<Rightarrow> int \<Rightarrow> int \<Rightarrow> int \<Rightarrow> nat \<Rightarrow> int" where
  "specTarget Q P K L i =
     specLayers Q P K L i * K
     + (if 0 < Q mod K \<and> specLayers Q P K L i < L
           \<and> (\<forall>j \<in> {i <..< nat P}. \<not> specLayers Q P K L j < L)
        then Q mod K else 0)"

text \<open>The same distribution for a total that need not be whole: the number of full
  layers is \<open>floor(Q/K)\<close> and the remainder is \<open>Q - K * floor(Q/K)\<close>, the value of
  \<open>Q % K\<close>.\<close>

definition layersOf :: "rat \<Rightarrow> int \<Rightarrow> int \<Rightarrow> int \<Rightarrow> nat \<Rightarrow> int" where
  "layersOf Q P K L i =
     min (\<lfloor>Q / of_int K\<rfloor> div P + (if int i < \<lfloor>Q / of_int K\<rfloor> mod P then 1 else 0)) L"

definition targetOf :: "rat \<Rightarrow> int \<Rightarrow> int \<Rightarrow> int \<Rightarrow> nat \<Rightarrow> rat" where
  "targetOf Q P K L i =
     of_int (layersOf Q P K L i * K)
     + (if 0 < js_fmod Q (of_int K) \<and> layersOf Q P K L i < L
           \<and> (\<forall>j \<in> {i <..< nat P}. \<not> layersOf Q P K L j < L)
        then js_fmod Q (of_int K) else 0)"





text \<open>The front-left grid corner of a layer, in the selector's terms: the cell origin
  has the minimal \<open>x\<close> and the minimal \<open>z\<close> of all cell origins.\<close>

definition frontLeftCell :: "Cell list \<Rightarrow> Cell \<Rightarrow> bool" where
  "frontLeftCell cells c \<longleftrightarrow>
     cell_x c = minOf (map cell_x cells) \<and> cell_z c = minOf (map cell_z cells)"

text \<open>Any of the four grid corners: minimal or maximal \<open>x\<close> together with minimal or
  maximal \<open>z\<close> of the cell origins.\<close>

definition gridCorner :: "Cell list \<Rightarrow> Cell \<Rightarrow> bool" where
  "gridCorner cells c \<longleftrightarrow>
     (cell_x c = minOf (map cell_x cells) \<or> cell_x c = maxOf (map cell_x cells))
     \<and> (cell_z c = minOf (map cell_z cells) \<or> cell_z c = maxOf (map cell_z cells))"

text \<open>The clamped centre at which a cell is placed, the centres of the placements of
  one layer of a pallet, and the centres of the grid-corner cells of a layer.\<close>

definition cellCentre :: "PalletConfig \<Rightarrow> Cell \<Rightarrow> rat \<times> rat" where
  "cellCentre pallet c =
     clampCenterInsidePallet
       ((cell_x c + len (cell_fp c) / 2) - pal_width pallet / 2)
       ((cell_z c + wid (cell_fp c) / 2) - pal_depth pallet / 2)
       (len (cell_fp c)) (wid (cell_fp c)) (pal_width pallet) (pal_depth pallet)"

text \<open>The centre of a cell before it is clamped.\<close>

definition rawCentre :: "PalletConfig \<Rightarrow> Cell \<Rightarrow> rat \<times> rat" where
  "rawCentre pallet c =
     ((cell_x c + len (cell_fp c) / 2) - pal_width pallet / 2,
      (cell_z c + wid (cell_fp c) / 2) - pal_depth pallet / 2)"

definition layerCentres :: "nat \<Rightarrow> PalletResult \<Rightarrow> (rat \<times> rat) list" where
  "layerCentres l pr =
     map (\<lambda>p. (pl_x p, pl_z p)) (filter (\<lambda>p. pl_layer p = l) (placements pr))"

definition cornerCentres :: "PalletConfig \<Rightarrow> Cell list \<Rightarrow> (rat \<times> rat) list" where
  "cornerCentres pallet cells = map (cellCentre pallet) (filter (gridCorner cells) cells)"

text \<open>The footprint that a placement occupies: the length and width of its box,
  swapped when the placement is rotated by 90 degrees.\<close>

definition placedLen :: "BoxPlacement \<Rightarrow> rat" where
  "placedLen p = (if pl_rotation p = 0 then box_length (pl_box p) else box_width (pl_box p))"

definition placedWid :: "BoxPlacement \<Rightarrow> rat" where
  "placedWid p = (if pl_rotation p = 0 then box_width (pl_box p) else box_length (pl_box p))"

section \<open>The selected pattern is a viable candidate\<close>

lemma selectBest_mem: "selectBest q best key cs \<in> set (best # cs)"
  by (induction cs arbitrary: best key) (auto simp: Let_def)

lemma chooseBest_viable:
  "chooseBestLayerPattern width depth a b q = Some p \<Longrightarrow> p \<in> set (viable width depth a b)"
  unfolding chooseBestLayerPattern_def
  using selectBest_mem by (fastforce split: list.splits)

text \<open>
  C8 (pattern feasibility).  Whenever a pattern is selected, its consumed width is at
  most the deck width plus \<open>1e-6\<close>, its consumed depth is at most the deck depth plus
  \<open>1e-6\<close>, and its per-layer capacity is positive.
\<close>

theorem pattern_feasible:
  assumes "chooseBestLayerPattern width depth a b totalQty = Some p"
  shows "usedWidth p \<le> width + 1 / 1000000 \<and> usedDepth p \<le> depth + 1 / 1000000
         \<and> 0 < perLayer p"
proof -
  have "fits width depth p"
    using chooseBest_viable[OF assms] by (simp add: viable_def)
  then show ?thesis
    by (simp add: fits_def EPS_def)
qed

theorem pattern_feasible_witness:
  "chooseBestLayerPattern 5 4 \<lparr>len = 2, wid = 3, rot = 0\<rparr> \<lparr>len = 3, wid = 2, rot = 90\<rparr> 4 \<noteq> None
   \<and> usedWidth (the (chooseBestLayerPattern 5 4 \<lparr>len = 2, wid = 3, rot = 0\<rparr>
                       \<lparr>len = 3, wid = 2, rot = 90\<rparr> 4)) \<le> 5 + 1 / 1000000
   \<and> usedDepth (the (chooseBestLayerPattern 5 4 \<lparr>len = 2, wid = 3, rot = 0\<rparr>
                       \<lparr>len = 3, wid = 2, rot = 90\<rparr> 4)) \<le> 4 + 1 / 1000000
   \<and> 0 < perLayer (the (chooseBestLayerPattern 5 4 \<lparr>len = 2, wid = 3, rot = 0\<rparr>
                           \<lparr>len = 3, wid = 2, rot = 90\<rparr> 4))"
proof -
  have h: "chooseBestLayerPattern 5 4 \<lparr>len = 2, wid = 3, rot = 0\<rparr> \<lparr>len = 3, wid = 2, rot = 90\<rparr> 4
    = Some (the (chooseBestLayerPattern 5 4 \<lparr>len = 2, wid = 3, rot = 0\<rparr>
                   \<lparr>len = 3, wid = 2, rot = 90\<rparr> 4))"
    by code_simp
  have ne: "chooseBestLayerPattern 5 4 \<lparr>len = 2, wid = 3, rot = 0\<rparr>
              \<lparr>len = 3, wid = 2, rot = 90\<rparr> 4 \<noteq> None"
    using h by (metis option.distinct(1))
  show ?thesis
    using pattern_feasible[OF h] ne by blast
qed

section \<open>The pattern argument\<close>

text \<open>
  C10 (the pattern argument is ignored).  For every boxes list, pallet envelope and any
  two pattern strings, the entry point gives identical outcomes, on every host.
\<close>

theorem pattern_arg_ignored:
  "calculateMultiPalletLayout host boxes pallet s1 = calculateMultiPalletLayout host boxes pallet s2"
  by (simp add: calculateMultiPalletLayout_def)

section \<open>Pattern selection is the first lexicographic maximum\<close>

lemma js_rem_mod: "0 \<le> a \<Longrightarrow> 0 < b \<Longrightarrow> js_rem a b = a mod b"
  by (cases "a = 0") (simp_all add: js_rem_def)

lemma js_fmod_pos:
  assumes "0 \<le> a" and "0 < b"
  shows "js_fmod a b = a - b * of_int \<lfloor>a / b\<rfloor>"
  using assms by (simp add: js_fmod_def)

lemma js_fmod_of_int:
  assumes "0 \<le> a" and "0 < b"
  shows "js_fmod (of_int a) (of_int b) = of_int (a mod b)"
proof -
  have "js_fmod (of_int a) (of_int b) = of_int a - of_int b * of_int \<lfloor>(of_int a :: rat) / of_int b\<rfloor>"
    using assms by (intro js_fmod_pos) simp_all
  also have "\<lfloor>(of_int a :: rat) / of_int b\<rfloor> = a div b"
    by (simp add: floor_divide_of_int_eq)
  also have "(of_int a :: rat) - of_int b * of_int (a div b) = of_int (a - b * (a div b))"
    by simp
  also have "a - b * (a div b) = a mod b"
    by (simp add: minus_mult_div_eq_mod)
  finally show ?thesis .
qed

lemma better_iff_specRankKey:
  assumes "0 \<le> q" "0 < perLayer c" "0 < perLayer d"
  shows "better (scoreTuple (of_int q) c) (scoreTuple (of_int q) d)
           \<longleftrightarrow> specRankKey q d < specRankKey q c"
  using assms
  by (auto simp: scoreTuple_def specRankKey_def Let_def js_fmod_of_int)

lemma selectBest_first_max:
  assumes "0 \<le> q" and "\<forall>c \<in> set (best # cs). 0 < perLayer c"
  shows "\<exists>pre post. best # cs = pre @ selectBest (of_int q) best (scoreTuple (of_int q) best) cs # post
           \<and> (\<forall>c \<in> set pre. specRankKey q c < specRankKey q (selectBest (of_int q) best (scoreTuple (of_int q) best) cs))
           \<and> (\<forall>c \<in> set post. specRankKey q c \<le> specRankKey q (selectBest (of_int q) best (scoreTuple (of_int q) best) cs))"
  using assms(2)
proof (induction cs arbitrary: best)
  case Nil
  have "[best] = [] @ best # [] \<and> (\<forall>c \<in> set []. specRankKey q c < specRankKey q best)
      \<and> (\<forall>c \<in> set []. specRankKey q c \<le> specRankKey q best)"
    by simp
  then show ?case
    unfolding selectBest.simps by blast
next
  case (Cons c cs)
  let ?k = "specRankKey q"
  show ?case
  proof (cases "better (scoreTuple (of_int q) c) (scoreTuple (of_int q) best)")
    case True
    then have lt: "?k best < ?k c"
      using better_iff_specRankKey[of q c best] assms(1) Cons.prems by simp
    define r where "r = selectBest (of_int q) c (scoreTuple (of_int q) c) cs"
    have r: "selectBest (of_int q) best (scoreTuple (of_int q) best) (c # cs) = r"
      using True by (simp add: Let_def r_def)
    from Cons.IH[of c] Cons.prems obtain pre post where
      d: "c # cs = pre @ r # post" and
      p: "\<forall>x \<in> set pre. ?k x < ?k r" and
      s: "\<forall>x \<in> set post. ?k x \<le> ?k r"
      unfolding r_def by auto
    have "?k c \<le> ?k r"
    proof (cases pre)
      case Nil
      then have "c = r" using d by simp
      then show ?thesis by simp
    next
      case (Cons y ys)
      then have "c \<in> set pre" using d by simp
      then show ?thesis using p by (simp add: less_imp_le)
    qed
    with lt have "?k best < ?k r" by (rule less_le_trans)
    then have "best # c # cs = (best # pre) @ r # post \<and> (\<forall>x \<in> set (best # pre). ?k x < ?k r)
        \<and> (\<forall>x \<in> set post. ?k x \<le> ?k r)"
      using d p s by simp
    then show ?thesis unfolding r by blast
  next
    case False
    then have le: "?k c \<le> ?k best"
      using better_iff_specRankKey[of q c best] assms(1) Cons.prems by (simp add: not_less)
    define r where "r = selectBest (of_int q) best (scoreTuple (of_int q) best) cs"
    have r: "selectBest (of_int q) best (scoreTuple (of_int q) best) (c # cs) = r"
      using False by (simp add: Let_def r_def)
    from Cons.IH[of best] Cons.prems obtain pre post where
      d: "best # cs = pre @ r # post" and
      p: "\<forall>x \<in> set pre. ?k x < ?k r" and
      s: "\<forall>x \<in> set post. ?k x \<le> ?k r"
      unfolding r_def by auto
    show ?thesis
    proof (cases pre)
      case Nil
      then have br: "best = r" and "cs = post" using d by simp_all
      then have "best # c # cs = [] @ r # (c # post) \<and> (\<forall>x \<in> set []. ?k x < ?k r)
          \<and> (\<forall>x \<in> set (c # post). ?k x \<le> ?k r)"
        using s le by simp
      then show ?thesis unfolding r by blast
    next
      case (Cons y ys)
      then have y: "y = best" and cs: "cs = ys @ r # post" using d by simp_all
      have "?k best < ?k r" using p Cons y by simp
      with le have "?k c < ?k r" by (rule le_less_trans)
      then have "best # c # cs = (best # c # ys) @ r # post
          \<and> (\<forall>x \<in> set (best # c # ys). ?k x < ?k r)
          \<and> (\<forall>x \<in> set post. ?k x \<le> ?k r)"
        using cs p s Cons y by simp
      then show ?thesis unfolding r by blast
    qed
  qed
qed

text \<open>
  C4 (strict lexicographic maximum).  For a non-negative total quantity, whenever a
  pattern is returned it is one of the viable candidates (positive capacity, fits the
  deck within \<open>EPS\<close>), its ranking tuple (capacity, consumed area, negated
  difference of consumed width and depth, negated block count minus one, divisibility
  flag, negated remainder) is the lexicographic maximum over the viable candidates, and
  every viable candidate generated before it has a strictly smaller tuple, so the
  earliest of the tied candidates is the one returned.
\<close>

theorem selection_is_lex_max:
  assumes "0 \<le> totalQty"
    and "chooseBestLayerPattern width depth a b (of_int totalQty) = Some best"
  shows "best \<in> set (viable width depth a b)
    \<and> (\<forall>c \<in> set (viable width depth a b). specRankKey totalQty c \<le> specRankKey totalQty best)
    \<and> (\<exists>pre post. viable width depth a b = pre @ best # post
          \<and> (\<forall>c \<in> set pre. specRankKey totalQty c < specRankKey totalQty best))"
proof -
  from assms(2) obtain v vs where
    v: "viable width depth a b = v # vs" and
    b: "best = selectBest (of_int totalQty) v (scoreTuple (of_int totalQty) v) vs"
    by (auto simp: chooseBestLayerPattern_def split: list.splits)
  have pos: "\<forall>c \<in> set (v # vs). 0 < perLayer c"
  proof
    fix c assume "c \<in> set (v # vs)"
    then have "c \<in> set (viable width depth a b)" using v by simp
    then show "0 < perLayer c" by (simp add: viable_def fits_def)
  qed
  from selectBest_first_max[OF assms(1) pos] obtain pre post where
    d: "v # vs = pre @ best # post" and
    p: "\<forall>c \<in> set pre. specRankKey totalQty c < specRankKey totalQty best" and
    s: "\<forall>c \<in> set post. specRankKey totalQty c \<le> specRankKey totalQty best"
    unfolding b by blast
  have "\<forall>c \<in> set (v # vs). specRankKey totalQty c \<le> specRankKey totalQty best"
    unfolding d using p s by (auto simp: less_imp_le)
  then show ?thesis
    using v d p by auto
qed

theorem selection_is_lex_max_witness:
  "(0::int) \<le> 4
   \<and> chooseBestLayerPattern 5 4 demoA demoB 4 \<noteq> None
   \<and> the (chooseBestLayerPattern 5 4 demoA demoB 4) \<in> set (viable 5 4 demoA demoB)
   \<and> list_all (\<lambda>c. specRankKey 4 c \<le> specRankKey 4 (the (chooseBestLayerPattern 5 4 demoA demoB 4)))
        (viable 5 4 demoA demoB)
   \<and> (\<exists>pre post. viable 5 4 demoA demoB = pre @ the (chooseBestLayerPattern 5 4 demoA demoB 4) # post
        \<and> list_all (\<lambda>c. specRankKey 4 c < specRankKey 4 (the (chooseBestLayerPattern 5 4 demoA demoB 4)))
             pre)"
proof -
  have h: "chooseBestLayerPattern 5 4 demoA demoB 4
             = Some (the (chooseBestLayerPattern 5 4 demoA demoB 4))"
    by code_simp
  have ne: "chooseBestLayerPattern 5 4 demoA demoB 4 \<noteq> None"
    using h by (metis option.distinct(1))
  have q: "(0::int) \<le> 4" by simp
  show ?thesis
    using selection_is_lex_max[of 4 5 4 demoA demoB, simplified, OF h] ne q
    unfolding list_all_iff by blast
qed


section \<open>The partial-layer selector picks exactly r distinct cells\<close>

lemma nearest_Some_start: "nearest f rest (Some b) bd \<noteq> None"
  by (induction f rest "Some b" bd arbitrary: b rule: nearest.induct) (auto simp: Let_def)

lemma nearest_nonempty: "rest \<noteq> [] \<Longrightarrow> nearest f rest None None \<noteq> None"
  by (cases rest) (auto simp: Let_def nearest_Some_start)

lemma nearest_in_set: "nearest f rest None None = Some i \<Longrightarrow> i \<in> set rest"
  using nearest_mem by fastforce

lemma pick_step_distinct:
  assumes "distinct (picked @ remaining)" and "i \<in> set remaining"
  shows "distinct ((picked @ [i]) @ removeAll i remaining)"
    and "set ((picked @ [i]) @ removeAll i remaining) = set (picked @ remaining)"
    and "length (picked @ [i]) + length (removeAll i remaining) = length picked + length remaining"
proof -
  show "distinct ((picked @ [i]) @ removeAll i remaining)"
    using assms by (auto simp: distinct_removeAll)
  show "set ((picked @ [i]) @ removeAll i remaining) = set (picked @ remaining)"
    using assms by auto
  have "length (removeAll i remaining) = length remaining - 1"
    using assms by (simp add: distinct_remove1_removeAll[symmetric] length_remove1)
  moreover have "length remaining > 0" using assms(2) by (cases remaining) auto
  ultimately show "length (picked @ [i]) + length (removeAll i remaining) = length picked + length remaining"
    by simp
qed

lemma picked_less_iff: "(of_nat n :: rat) < r \<longleftrightarrow> int n < \<lceil>r\<rceil>"
  by (simp add: less_ceiling_iff)

lemma cornerLoop_inv:
  assumes "cornerLoop cells r ks picked remaining = (picked', remaining')"
    and "distinct (picked @ remaining)" and "int (length picked) \<le> \<lceil>r\<rceil>"
  shows "distinct (picked' @ remaining') \<and> set (picked' @ remaining') = set (picked @ remaining)
         \<and> length picked' + length remaining' = length picked + length remaining
         \<and> int (length picked') \<le> \<lceil>r\<rceil>"
  using assms
proof (induction cells r ks picked remaining rule: cornerLoop.induct)
  case (1 cells r picked remaining)
  then show ?case by simp
next
  case (2 cells r isCorner px pz ks picked remaining)
  show ?case
  proof (cases "of_nat (length picked) < r")
    case False
    then show ?thesis using 2 by simp
  next
    case True
    show ?thesis
    proof (cases "find (\<lambda>i. i \<in> set remaining \<and> isCorner (cells ! i)) [0 ..< length cells]")
      case (Some exactIdx)
      then have mem: "exactIdx \<in> set remaining"
        by (auto simp: find_Some_iff)
      have call: "cornerLoop cells r ks (picked @ [exactIdx]) (removeAll exactIdx remaining) = (picked', remaining')"
        using "2.prems"(1) True Some by simp
      have "int (length (picked @ [exactIdx])) \<le> \<lceil>r\<rceil>"
        using True by (simp add: picked_less_iff)
      from "2.IH"(3)[OF True Some call pick_step_distinct(1)[OF "2.prems"(2) mem] this]
      show ?thesis
        using pick_step_distinct(2,3)[OF "2.prems"(2) mem] by simp
    next
      case None
      show ?thesis
      proof (cases "nearest (\<lambda>i. dist2 (cells ! i) px pz) remaining None None")
        case (Some best)
        then have mem: "best \<in> set remaining" by (rule nearest_in_set)
        have call: "cornerLoop cells r ks (picked @ [best]) (removeAll best remaining) = (picked', remaining')"
          using "2.prems"(1) True None Some by simp
        have "int (length (picked @ [best])) \<le> \<lceil>r\<rceil>"
          using True by (simp add: picked_less_iff)
        from "2.IH"(2)[OF True None Some call pick_step_distinct(1)[OF "2.prems"(2) mem] this]
        show ?thesis
          using pick_step_distinct(2,3)[OF "2.prems"(2) mem] by simp
      next
        case N2: None
        have call: "cornerLoop cells r ks picked remaining = (picked', remaining')"
          using "2.prems"(1) True None N2 by simp
        from "2.IH"(1)[OF True None N2 call "2.prems"(2,3)]
        show ?thesis .
      qed
    qed
  qed
qed

lemma edgeLoop_inv:
  assumes "distinct (picked @ remaining)" and "int (length picked) \<le> \<lceil>r\<rceil>"
  shows "distinct (edgeLoop cells r score picked remaining)
         \<and> set (edgeLoop cells r score picked remaining) \<subseteq> set (picked @ remaining)
         \<and> int (length (edgeLoop cells r score picked remaining))
             = min \<lceil>r\<rceil> (int (length picked + length remaining))"
  using assms
proof (induction cells r score picked remaining rule: edgeLoop.induct)
  case (1 cells r score picked remaining)
  show ?case
  proof (cases "of_nat (length picked) < r \<and> remaining \<noteq> []")
    case False
    then show ?thesis using "1.prems" by (subst (1 2 3) edgeLoop.simps) (auto simp: picked_less_iff)
  next
    case True
    then obtain best where
      b: "nearest (\<lambda>i. score (cells ! i)) remaining None None = Some best"
      using nearest_nonempty[of remaining "\<lambda>i. score (cells ! i)"] by auto
    then have mem: "best \<in> set remaining" by (rule nearest_in_set)
    have e: "edgeLoop cells r score picked remaining
             = edgeLoop cells r score (picked @ [best]) (removeAll best remaining)"
      using True b by (subst edgeLoop.simps) simp
    have "int (length (picked @ [best])) \<le> \<lceil>r\<rceil>"
      using True by (simp add: picked_less_iff)
    from "1.IH"[OF True b pick_step_distinct(1)[OF "1.prems"(1) mem] this]
    show ?thesis
      unfolding e using pick_step_distinct(2,3)[OF "1.prems"(1) mem] by simp
  qed
qed

lemma pick_exact:
  assumes "0 < r" and "\<lceil>r\<rceil> \<le> int (length cells)"
  shows "\<exists>idxs. pickCornerEdgePartialCells cells r = map (\<lambda>i. cells ! i) idxs
           \<and> distinct idxs \<and> set idxs \<subseteq> {..< length cells}
           \<and> int (length idxs) = \<lceil>r\<rceil>
           \<and> int (length (pickCornerEdgePartialCells cells r)) = \<lceil>r\<rceil>"
proof -
  have r1: "1 \<le> \<lceil>r\<rceil>" using assms(1) by (simp add: Ints_0 less_ceiling_iff int_one_le_iff_zero_less)
  have ne: "cells \<noteq> []" using assms(2) r1 by auto
  define minX where "minX = minOf (map cell_x cells)"
  define minZ where "minZ = minOf (map cell_z cells)"
  define maxX where "maxX = maxOf (map (\<lambda>c. cell_x c + len (cell_fp c)) cells)"
  define maxZ where "maxZ = maxOf (map (\<lambda>c. cell_z c + wid (cell_fp c)) cells)"
  define maxCol where "maxCol = maxOf (map cell_x cells)"
  define maxRow where "maxRow = maxOf (map cell_z cells)"
  define corners where "corners =
              [(\<lambda>c::Cell. cell_x c = minX \<and> cell_z c = minZ, minX, minZ),
               (\<lambda>c. cell_x c = minX \<and> cell_z c = maxRow, minX, maxZ),
               (\<lambda>c. cell_x c = maxCol \<and> cell_z c = minZ, maxX, minZ),
               (\<lambda>c. cell_x c = maxCol \<and> cell_z c = maxRow, maxX, maxZ)]"
  obtain picked1 remaining1 where
    c: "cornerLoop cells r corners [] [0 ..< length cells] = (picked1, remaining1)"
    by (cases "cornerLoop cells r corners [] [0 ..< length cells]")
  define picked2 where "picked2 = edgeLoop cells r (edgeScore minX maxX minZ maxZ) picked1 remaining1"
  have res: "pickCornerEdgePartialCells cells r = map (\<lambda>i. cells ! i) picked2"
    using assms ne c
    by (simp add: pickCornerEdgePartialCells_def Let_def minX_def minZ_def maxX_def maxZ_def
        maxCol_def maxRow_def corners_def picked2_def)
  have inv1: "distinct (picked1 @ remaining1) \<and> set (picked1 @ remaining1) = set ([] @ [0 ..< length cells])
         \<and> length picked1 + length remaining1 = length ([]::nat list) + length [0 ..< length cells]
         \<and> int (length picked1) \<le> \<lceil>r\<rceil>"
    using cornerLoop_inv[OF c] r1 by simp
  have inv2: "distinct picked2 \<and> set picked2 \<subseteq> set (picked1 @ remaining1)
         \<and> int (length picked2) = min \<lceil>r\<rceil> (int (length picked1 + length remaining1))"
    unfolding picked2_def using edgeLoop_inv inv1 by blast
  have "distinct picked2" "set picked2 \<subseteq> {..< length cells}" "int (length picked2) = \<lceil>r\<rceil>"
    using inv1 inv2 assms(2) by auto
  then show ?thesis
    using res by (intro exI[of _ picked2]) simp
qed

text \<open>
  C5 (partial-layer exactness).  For every cell list and every required count \<open>r\<close>
  with \<open>1 \<le> r\<close> and \<open>r\<close> less than the number of cells, the selector returns exactly
  \<open>r\<close> cells: the cells at \<open>r\<close> pairwise distinct positions of the input list.
\<close>

theorem partial_layer_exact:
  assumes "1 \<le> r" and "r < int (length cells)"
  shows "\<exists>idxs. pickCornerEdgePartialCells cells (of_int r) = map (\<lambda>i. cells ! i) idxs
           \<and> distinct idxs \<and> set idxs \<subseteq> {..< length cells}
           \<and> int (length idxs) = r
           \<and> int (length (pickCornerEdgePartialCells cells (of_int r))) = r"
proof -
  have "(0::rat) < of_int r" and "\<lceil>of_int r :: rat\<rceil> \<le> int (length cells)"
    using assms by simp_all
  from pick_exact[OF this] show ?thesis by simp
qed

theorem partial_layer_exact_witness:
  "(1::int) \<le> 2 \<and> 2 < int (length demoCells)
   \<and> (\<exists>idxs. pickCornerEdgePartialCells demoCells 2 = map (\<lambda>i. demoCells ! i) idxs
         \<and> distinct idxs \<and> set idxs \<subseteq> {..< length demoCells}
         \<and> int (length idxs) = 2
         \<and> int (length (pickCornerEdgePartialCells demoCells 2)) = 2)"
proof -
  have a: "(1::int) \<le> 2" by simp
  have b: "2 < int (length demoCells)" by (simp add: demoCells_def)
  show ?thesis
    using partial_layer_exact[OF a b] a b by simp
qed


section \<open>Target distribution\<close>

lemma floor_div_eq: "floor_div a b = a div b"
  by (simp add: floor_div_def floor_divide_of_int_eq)

lemma distributeLayers_replicate:
  "distributeLayers (replicate n b) e L
     = map (\<lambda>i. min (b + (if int i < e then 1 else 0)) L) [0 ..< n]"
proof (induction n arbitrary: e)
  case 0
  show ?case by simp
next
  case (Suc n)
  have split: "map (\<lambda>i. min (b + (if int i < e then 1 else 0)) L) [0 ..< Suc n]
      = min (b + (if 0 < e then 1 else 0)) L
        # map (\<lambda>i. min (b + (if int (Suc i) < e then 1 else 0)) L) [0 ..< n]"
    by (simp add: upt_conv_Cons map_Suc_upt[symmetric] del: upt_Suc)
  show ?case
  proof (cases "0 < e")
    case True
    have "\<And>i. (int (Suc i) < e) = (int i < e - 1)" by auto
    then show ?thesis
      using True Suc.IH[of "e - 1"] unfolding split by (simp del: upt_Suc)
  next
    case False
    have "\<And>i. (int (Suc i) < e) = (int i < e)" using False by auto
    then show ?thesis
      using False Suc.IH[of e] unfolding split by (simp del: upt_Suc)
  qed
qed

lemma placeRemainder_found:
  assumes "\<exists>i<n. layersPerPallet ! i < L"
  shows "\<exists>j<n. layersPerPallet ! j < L \<and> (\<forall>k. j < k \<and> k < n \<longrightarrow> \<not> layersPerPallet ! k < L)
           \<and> placeRemainder layersPerPallet L counts rem n = (counts[j := counts ! j + rem], 0)"
  using assms
proof (induction n)
  case 0
  then show ?case by simp
next
  case (Suc n)
  show ?case
  proof (cases "layersPerPallet ! n < L")
    case True
    then have "n < Suc n \<and> layersPerPallet ! n < L
        \<and> (\<forall>k. n < k \<and> k < Suc n \<longrightarrow> \<not> layersPerPallet ! k < L)
        \<and> placeRemainder layersPerPallet L counts rem (Suc n) = (counts[n := counts ! n + rem], 0)"
      by simp
    then show ?thesis by blast
  next
    case False
    then have "\<exists>i<n. layersPerPallet ! i < L"
      using Suc.prems less_Suc_eq by auto
    from Suc.IH[OF this] obtain j where
      j: "j < n" "layersPerPallet ! j < L" "\<forall>k. j < k \<and> k < n \<longrightarrow> \<not> layersPerPallet ! k < L"
        "placeRemainder layersPerPallet L counts rem n = (counts[j := counts ! j + rem], 0)"
      by blast
    have "j < Suc n \<and> layersPerPallet ! j < L
        \<and> (\<forall>k. j < k \<and> k < Suc n \<longrightarrow> \<not> layersPerPallet ! k < L)
        \<and> placeRemainder layersPerPallet L counts rem (Suc n) = (counts[j := counts ! j + rem], 0)"
      using j False less_Suc_eq by auto
    then show ?thesis by blast
  qed
qed

lemma spreadLeftover_none: "rem \<le> 0 \<Longrightarrow> spreadLeftover K counts rem n = (counts, rem)"
  by (cases n) simp_all

lemma sum_list_update_add:
  "j < length xs \<Longrightarrow> sum_list (xs[j := xs ! j + r]) = sum_list xs + (r::'a::comm_monoid_add)"
  by (induction xs arbitrary: j) (auto split: nat.splits simp: ac_simps)

lemma sum_extra_layers:
  "0 \<le> e \<Longrightarrow>
   sum_list (map (\<lambda>i. b + (if int i < e then 1 else 0)) [0 ..< n]) = int n * b + min e (int n)"
  by (induction n) (auto simp: algebra_simps)

lemma sum_list_counts:
  "sum_list (map (\<lambda>l. (of_int (l * K) :: rat)) ls) = of_int (sum_list ls * K)"
  by (induction ls) (simp_all add: algebra_simps)

lemma sum_list_ceiling_counts:
  "sum_list (map (\<lambda>x. \<lceil>x\<rceil>) (map (\<lambda>l. (of_int (l * K) :: rat)) ls)) = sum_list ls * K"
  by (induction ls) (simp_all add: algebra_simps del: of_int_mult)

lemma ceiling_of_int_add: "\<lceil>(of_int z :: rat) + x\<rceil> = z + \<lceil>x\<rceil>"
  using ceiling_add_of_int[of x z] by (simp add: add.commute)

lemma floor_rem_bounds:
  assumes "0 < (b::rat)"
  shows "0 \<le> a - b * of_int \<lfloor>a / b\<rfloor>" and "a - b * of_int \<lfloor>a / b\<rfloor> < b"
proof -
  have "of_int \<lfloor>a / b\<rfloor> \<le> a / b" by (rule of_int_floor_le)
  then have "of_int \<lfloor>a / b\<rfloor> * b \<le> a" unfolding pos_le_divide_eq[OF assms] .
  then show "0 \<le> a - b * of_int \<lfloor>a / b\<rfloor>" by (simp add: mult.commute)
  have "a / b < of_int \<lfloor>a / b\<rfloor> + 1" by linarith
  then have "a < (of_int \<lfloor>a / b\<rfloor> + 1) * b" unfolding pos_divide_less_eq[OF assms] .
  then show "a - b * of_int \<lfloor>a / b\<rfloor> < b" by (simp add: algebra_simps)
qed

lemma buildTargets_closed_form:
  assumes Q: "0 < Q" and P: "1 \<le> P" and P32: "P \<le> 4294967295"
    and H: "host P = Allocated"
    and K: "1 \<le> K" and L: "1 \<le> L" and cap: "Q \<le> of_int (P * K * L)"
  shows "buildTargetsByFullLayers host Q P K L = Inr (map (targetOf Q P K L) [0 ..< nat P])
       \<and> sum_list (map (targetOf Q P K L) [0 ..< nat P]) = Q
       \<and> sum_list (map (\<lambda>x. \<lceil>x\<rceil>) (map (targetOf Q P K L) [0 ..< nat P])) = \<lceil>Q\<rceil>
       \<and> (\<forall>i < nat P. 0 \<le> targetOf Q P K L i \<and> targetOf Q P K L i \<le> of_int (K * L))"
proof -
  define T where "T = \<lfloor>Q / of_int K\<rfloor>"
  define R where "R = js_fmod Q (of_int K)"
  define base where "base = T div P"
  define extra where "extra = T mod P"
  define n where "n = nat P"
  have Kr: "(0::rat) < of_int K" using K by simp
  have n: "int n = P" "0 < n" using P by (simp_all add: n_def)
  have T0: "0 \<le> T" using Q Kr by (simp add: T_def)
  have Rdef: "R = Q - of_int K * of_int T"
    unfolding R_def T_def using js_fmod_pos[of Q "of_int K"] Q Kr by simp
  have R0: "0 \<le> R" and RK: "R < of_int K"
    unfolding Rdef T_def using floor_rem_bounds[OF Kr, of Q] by simp_all
  have QTR: "Q = of_int (T * K) + R" by (simp add: Rdef algebra_simps)
  have "Q / of_int K \<le> of_int (P * L)"
    using cap Kr by (simp add: pos_divide_le_eq algebra_simps)
  then have "T \<le> \<lfloor>(of_int (P * L) :: rat)\<rfloor>" unfolding T_def by (rule floor_mono)
  then have TPL: "T \<le> P * L" by (simp only: floor_of_int)
  have e0: "0 \<le> extra" and eP: "extra < P" using P by (simp_all add: extra_def)
  have Tbe: "T = base * P + extra" by (simp add: base_def extra_def)
  have base0: "0 \<le> base" using T0 P by (simp add: base_def pos_imp_zdiv_nonneg_iff)
  have baseL: "base \<le> L"
  proof (rule ccontr)
    assume "\<not> base \<le> L"
    then have "L + 1 \<le> base" by simp
    then have "(L + 1) * P \<le> base * P" using P by (intro mult_right_mono) simp_all
    then have "L * P + P \<le> T" using Tbe e0 by (simp add: algebra_simps)
    then show False using TPL P by (simp add: algebra_simps)
  qed
  have extraL: "0 < extra \<Longrightarrow> base + 1 \<le> L"
  proof (rule ccontr)
    assume ex: "0 < extra" and "\<not> base + 1 \<le> L"
    then have "L \<le> base" by simp
    then have "L * P \<le> base * P" using P by (intro mult_right_mono) simp_all
    then show False using Tbe ex TPL by (simp add: algebra_simps)
  qed
  have SL: "layersOf Q P K L i = base + (if int i < extra then 1 else 0)" for i
    using baseL extraL by (auto simp: layersOf_def T_def[symmetric] base_def[symmetric] extra_def[symmetric])
  have SL0: "0 \<le> layersOf Q P K L i" and SLL: "layersOf Q P K L i \<le> L" for i
    using base0 baseL extraL by (auto simp: SL)
  define lpp where "lpp = map (layersOf Q P K L) [0 ..< n]"
  define counts where "counts = map (\<lambda>l. (of_int (l * K) :: rat)) lpp"
  have dl: "distributeLayers (replicate n base) extra L = lpp"
    unfolding distributeLayers_replicate lpp_def
    by (simp add: layersOf_def T_def[symmetric] base_def[symmetric] extra_def[symmetric])
  have len: "length lpp = n" "length counts = n" by (simp_all add: lpp_def counts_def)
  have lppi: "lpp ! i = layersOf Q P K L i" if "i < n" for i
    using that by (simp add: lpp_def)
  have cti: "counts ! i = of_int (layersOf Q P K L i * K)" if "i < n" for i
    using that by (simp add: counts_def lpp_def)
  have "sum_list lpp = int n * base + min extra (int n)"
    unfolding lpp_def using sum_extra_layers[OF e0, of base n] by (simp add: SL[abs_def])
  then have sumL: "sum_list lpp = T"
    using eP n Tbe by (simp add: algebra_simps)
  have sumC: "sum_list counts = of_int (T * K)"
    unfolding counts_def sum_list_counts using sumL by simp
  have sumCc: "sum_list (map (\<lambda>x. \<lceil>x\<rceil>) counts) = T * K"
    unfolding counts_def sum_list_ceiling_counts using sumL by simp
  have nfa: "newFilledArray host P base = Inr (replicate n base)"
    using P P32 H by (simp add: newFilledArray_def n_def)
  have bt: "buildTargetsByFullLayers host Q P K L =
      (case (if 0 < R then placeRemainder lpp L counts R n else (counts, R)) of
         (counts1, rem1) \<Rightarrow>
           (case spreadLeftover K counts1 rem1 n of
              (counts2, rem2) \<Rightarrow>
                Inr (if Q - sum_list counts2 \<noteq> 0 \<and> counts2 \<noteq> []
                     then counts2[length counts2 - 1 := counts2 ! (length counts2 - 1) + (Q - sum_list counts2)]
                     else counts2)))"
    using P T0 nfa
    by (simp add: buildTargetsByFullLayers_def Let_def floor_div_eq js_rem_mod
        T_def[symmetric] R_def[symmetric] base_def[symmetric] extra_def[symmetric]
        n_def[symmetric] dl counts_def[symmetric] del: of_int_mult)
  have bounds: "0 \<le> targetOf Q P K L i \<and> targetOf Q P K L i \<le> of_int (K * L)" for i
  proof -
    have "layersOf Q P K L i * K \<le> L * K"
      using SLL K by (intro mult_right_mono) simp_all
    then have a: "(of_int (layersOf Q P K L i * K) :: rat) \<le> of_int (K * L)"
      by (simp only: of_int_le_iff mult.commute)
    have "0 \<le> layersOf Q P K L i * K" using SL0 K by simp
    then have b: "(0::rat) \<le> of_int (layersOf Q P K L i * K)" by (simp only: of_int_0_le_iff)
    have c: "of_int (layersOf Q P K L i * K) + R \<le> of_int (K * L)" if "layersOf Q P K L i < L"
    proof -
      have "layersOf Q P K L i + 1 \<le> L" using that by simp
      then have "(layersOf Q P K L i + 1) * K \<le> L * K" using K by (intro mult_right_mono) simp_all
      then have "(of_int ((layersOf Q P K L i + 1) * K) :: rat) \<le> of_int (K * L)"
        by (simp only: of_int_le_iff mult.commute)
      then show ?thesis using RK by (simp add: algebra_simps)
    qed
    show ?thesis
      using a b c R0 unfolding targetOf_def R_def[symmetric] by auto
  qed
  show ?thesis
  proof (cases "0 < R")
    case False
    then have R: "R = 0" using R0 by simp
    have tg: "map (targetOf Q P K L) [0 ..< n] = counts"
      by (simp add: targetOf_def R_def[symmetric] R counts_def lpp_def)
    have "buildTargetsByFullLayers host Q P K L = Inr counts"
      unfolding bt using R sumC QTR by (simp add: spreadLeftover_none)
    moreover have "\<lceil>Q\<rceil> = T * K"
      using QTR R by (simp del: of_int_mult)
    ultimately show ?thesis
      using tg sumC sumCc QTR R bounds by (simp add: n_def[symmetric] del: of_int_mult)
  next
    case True
    have "\<exists>i<n. lpp ! i < L"
    proof (rule ccontr)
      assume "\<not> (\<exists>i<n. lpp ! i < L)"
      then have all: "\<And>i. i < n \<Longrightarrow> L \<le> layersOf Q P K L i"
        using lppi by (metis not_less)
      have "L \<le> layersOf Q P K L (n - 1)" using all n by simp
      moreover have "\<not> int (n - 1) < extra" using eP n by simp
      ultimately have "L \<le> base" by (simp add: SL)
      then have bL: "base = L" using baseL by simp
      then have "extra = 0" using extraL e0 by (cases "0 < extra") simp_all
      then have "T = L * P" using Tbe bL by simp
      then have "Q = of_int (P * K * L) + R" using QTR by (simp add: algebra_simps)
      then show False using True cap by simp
    qed
    from placeRemainder_found[OF this, of counts R] obtain j where
      j: "j < n" "lpp ! j < L" "\<forall>k. j < k \<and> k < n \<longrightarrow> \<not> lpp ! k < L"
         "placeRemainder lpp L counts R n = (counts[j := counts ! j + R], 0)"
      by blast
    define final where "final = counts[j := counts ! j + R]"
    have sumF: "sum_list final = Q"
      unfolding final_def using sum_list_update_add[of j counts R] j(1) len sumC QTR by simp
    have "map (\<lambda>x. \<lceil>x\<rceil>) final = (map (\<lambda>x. \<lceil>x\<rceil>) counts)[j := map (\<lambda>x. \<lceil>x\<rceil>) counts ! j + \<lceil>R\<rceil>]"
      unfolding final_def map_update using j(1) len cti[OF j(1)]
      by (simp add: ceiling_of_int_add del: of_int_mult)
    then have "sum_list (map (\<lambda>x. \<lceil>x\<rceil>) final) = T * K + \<lceil>R\<rceil>"
      using sum_list_update_add[of j "map (\<lambda>x. \<lceil>x\<rceil>) counts" "\<lceil>R\<rceil>"] j(1) len sumCc by simp
    moreover have "\<lceil>Q\<rceil> = T * K + \<lceil>R\<rceil>"
      by (subst QTR) (simp add: ceiling_of_int_add del: of_int_mult)
    ultimately have sumFc: "sum_list (map (\<lambda>x. \<lceil>x\<rceil>) final) = \<lceil>Q\<rceil>" by simp
    have res: "buildTargetsByFullLayers host Q P K L = Inr final"
      unfolding bt using True j(4) sumF by (simp add: spreadLeftover_none final_def)
    have tg: "map (targetOf Q P K L) [0 ..< n] = final"
    proof (rule nth_equalityI)
      show "length (map (targetOf Q P K L) [0 ..< n]) = length final"
        by (simp add: final_def len)
    next
      fix i assume "i < length (map (targetOf Q P K L) [0 ..< n])"
      then have i: "i < n" by simp
      have cond: "(0 < R \<and> layersOf Q P K L i < L
            \<and> (\<forall>k \<in> {i <..< nat P}. \<not> layersOf Q P K L k < L)) \<longleftrightarrow> i = j"
      proof
        assume c: "0 < R \<and> layersOf Q P K L i < L
            \<and> (\<forall>k \<in> {i <..< nat P}. \<not> layersOf Q P K L k < L)"
        show "i = j"
        proof (rule ccontr)
          assume "i \<noteq> j"
          then consider "i < j" | "j < i" by linarith
          then show False
          proof cases
            case 1
            then have "j \<in> {i <..< nat P}" using j(1) by (simp add: n_def)
            then show False using c j(2) lppi[OF j(1)] by auto
          next
            case 2
            then show False using j(3) i c lppi[OF i] by auto
          qed
        qed
      next
        assume "i = j"
        then show "0 < R \<and> layersOf Q P K L i < L
            \<and> (\<forall>k \<in> {i <..< nat P}. \<not> layersOf Q P K L k < L)"
          using True j lppi by (auto simp: n_def)
      qed
      show "map (targetOf Q P K L) [0 ..< n] ! i = final ! i"
        using i cond len cti unfolding targetOf_def R_def[symmetric]
        by (auto simp: final_def nth_list_update simp del: of_int_mult)
    qed
    show ?thesis
      using res tg sumF sumFc bounds by (simp add: n_def[symmetric])
  qed
qed

text \<open>For a whole total the closed form is the distribution in the words of the
  specification.\<close>

lemma targetOf_of_int:
  assumes "0 \<le> Q" and "1 \<le> K"
  shows "targetOf (of_int Q) P K L i = of_int (specTarget Q P K L i)"
proof -
  have f: "\<lfloor>(of_int Q :: rat) / of_int K\<rfloor> = Q div K"
    by (simp add: floor_divide_of_int_eq)
  have l: "layersOf (of_int Q) P K L j = specLayers Q P K L j" for j
    by (simp add: layersOf_def specLayers_def f)
  have m: "js_fmod (of_int Q) (of_int K) = of_int (Q mod K)"
    using assms by (intro js_fmod_of_int) simp_all
  show ?thesis
    unfolding targetOf_def specTarget_def l m by simp
qed


text \<open>
  C3 (target distribution), amended by what the allocation and the number format ask
  for.  For every whole total quantity \<open>Q \<ge> 1\<close>, pallet count \<open>P \<ge> 1\<close> for which
  the engine allocates an array of \<open>P\<close> elements (so \<open>P \<le> 2^32 - 1\<close>, the largest
  array length), per-layer capacity \<open>K \<ge> 1\<close> and max layers \<open>L \<ge> 1\<close>, all three at
  most \<open>2^53\<close> so that the doubles hold them and their quotients exactly, with
  \<open>Q \<le> P * K * L\<close>, the function returns exactly \<open>P\<close> whole targets whose sum is
  exactly \<open>Q\<close>, each target is at most \<open>K * L\<close>, and target \<open>i\<close> is the evenly
  spread, clamped number of full layers times \<open>K\<close>, plus the whole remainder
  \<open>Q mod K\<close> on the last pallet that still has a spare layer.
\<close>

theorem targets_by_full_layers:
  assumes "1 \<le> Q" and "Q \<le> 9007199254740992"
    and "1 \<le> P" and "P \<le> 4294967295" and "host P = Allocated"
    and "1 \<le> K" and "K \<le> 9007199254740992"
    and "1 \<le> L" and "L \<le> 9007199254740992"
    and "Q \<le> P * K * L"
  shows "\<exists>targets. buildTargetsByFullLayers host (of_int Q) P K L = Inr (map of_int targets)
           \<and> length targets = nat P
           \<and> sum_list targets = Q
           \<and> (\<forall>i < nat P. targets ! i \<le> K * L)
           \<and> (\<forall>i < nat P. targets ! i = specTarget Q P K L i)"
proof -
  define ts where "ts = map (specTarget Q P K L) [0 ..< nat P]"
  have Q0: "(0::rat) < of_int Q" using assms(1) by simp
  have cap: "(of_int Q :: rat) \<le> of_int (P * K * L)"
    using assms(10) by (simp only: of_int_le_iff)
  have tg: "map (targetOf (of_int Q) P K L) [0 ..< nat P] = map of_int ts"
    using targetOf_of_int[of Q K P L] assms(1,6) by (simp add: ts_def)
  from buildTargets_closed_form[where host = host and P = P, OF Q0 assms(3,4,5,6,8) cap]
  have r: "buildTargetsByFullLayers host (of_int Q) P K L = Inr (map of_int ts)"
    and s: "sum_list (map (\<lambda>x. \<lceil>x\<rceil>) (map (of_int :: int \<Rightarrow> rat) ts)) = \<lceil>(of_int Q :: rat)\<rceil>"
    and b: "\<forall>i < nat P. targetOf (of_int Q) P K L i \<le> of_int (K * L)"
    unfolding tg by simp_all
  have "map (\<lambda>x. \<lceil>x\<rceil>) (map (of_int :: int \<Rightarrow> rat) ts) = ts"
    by (induction ts) simp_all
  then have sum: "sum_list ts = Q" using s by simp
  have bound: "\<forall>i < nat P. ts ! i \<le> K * L"
  proof (intro allI impI)
    fix i assume i: "i < nat P"
    have "targetOf (of_int Q) P K L i \<le> of_int (K * L)"
      using b i by blast
    moreover have "targetOf (of_int Q) P K L i = of_int (specTarget Q P K L i)"
      using targetOf_of_int[of Q K P L i] assms(1,6) by simp
    ultimately have "(of_int (specTarget Q P K L i) :: rat) \<le> of_int (K * L)"
      by simp
    then have "specTarget Q P K L i \<le> K * L"
      by (simp only: of_int_le_iff)
    then show "ts ! i \<le> K * L"
      using i by (simp add: ts_def)
  qed
  have "buildTargetsByFullLayers host (of_int Q) P K L = Inr (map of_int ts)
      \<and> length ts = nat P \<and> sum_list ts = Q
      \<and> (\<forall>i < nat P. ts ! i \<le> K * L)
      \<and> (\<forall>i < nat P. ts ! i = specTarget Q P K L i)"
    using r sum bound by (simp add: ts_def)
  then show ?thesis by blast
qed

theorem targets_by_full_layers_witness:
  "(1::int) \<le> 101 \<and> (101::int) \<le> 9007199254740992
   \<and> (1::int) \<le> 3 \<and> (3::int) \<le> 4294967295 \<and> demoHost 3 = Allocated
   \<and> (1::int) \<le> 4 \<and> (4::int) \<le> 9007199254740992
   \<and> (1::int) \<le> 10 \<and> (10::int) \<le> 9007199254740992
   \<and> (101::int) \<le> 3 * 4 * 10
   \<and> (\<exists>targets. buildTargetsByFullLayers demoHost 101 3 4 10 = Inr (map of_int targets)
         \<and> length targets = nat 3
         \<and> sum_list targets = 101
         \<and> (\<forall>i < nat 3. targets ! i \<le> 4 * 10)
         \<and> (\<forall>i < nat 3. targets ! i = specTarget 101 3 4 10 i))"
proof -
  have a: "(1::int) \<le> 101" and a': "(101::int) \<le> 9007199254740992"
    and b: "(1::int) \<le> 3" and c: "(3::int) \<le> 4294967295"
    and h: "demoHost 3 = Allocated"
    and d: "(1::int) \<le> 4" and d': "(4::int) \<le> 9007199254740992"
    and e: "(1::int) \<le> 10" and e': "(10::int) \<le> 9007199254740992"
    and f: "(101::int) \<le> 3 * 4 * 10"
    by (simp_all add: demoHost_def)
  have "\<exists>targets. buildTargetsByFullLayers demoHost 101 3 4 10 = Inr (map of_int targets)
         \<and> length targets = nat 3
         \<and> sum_list targets = 101
         \<and> (\<forall>i < nat 3. targets ! i \<le> 4 * 10)
         \<and> (\<forall>i < nat 3. targets ! i = specTarget 101 3 4 10 i)"
    using targets_by_full_layers[where host = demoHost and P = 3, OF a a' b c h d d' e e' f]
    by simp
  then show ?thesis
    using a a' b c h d d' e e' f by blast
qed

text \<open>The claim as stated, for every \<open>P \<ge> 1\<close>, fails at \<open>P = 2^32\<close>: no array of that
  length exists, the allocation throws and no target list is returned.  Below that
  length the allocation is up to the host, which may refuse it or give up.\<close>

theorem targets_by_full_layers_counterexample:
  "(1::int) \<le> 4294967296 \<and> (4294967296::int) \<le> 4294967296 * 1 * 1
   \<and> buildTargetsByFullLayers demoHost 4294967296 4294967296 1 1 = Inl RangeError
   \<and> buildTargetsByFullLayers demoHost 200000000 200000000 1 1 = Inl RangeError
   \<and> buildTargetsByFullLayers demoHost 4294967295 4294967295 1 1 = Inl OutOfMemory"
  by (simp add: buildTargetsByFullLayers_def newFilledArray_def demoHost_def)

section \<open>Every candidate pattern materializes to as many cells as its capacity\<close>

lemma length_blockCells: "length (blockCells x0 z0 b) = nat (rows b) * nat (cols b)"
  by (simp add: blockCells_def length_concat comp_def sum_list_triv)

lemma grid_cells:
  "\<exists>cells. materializeLayerCells (buildGridPattern width depth f) W D = Inr cells
     \<and> int (length cells) = perLayer (buildGridPattern width depth f)"
  by (simp add: materializeLayerCells_def buildGridPattern_def Let_def length_blockCells
      mult.commute)

lemma splitX_cells:
  assumes "1 \<le> c" and "0 \<le> width - of_int c * len left" and "0 < len right"
    and "0 \<le> depth" and "0 < wid left" and "0 < wid right"
  shows "\<exists>cells. materializeLayerCells (splitXPattern width depth left right c) W D = Inr cells
     \<and> int (length cells) = perLayer (splitXPattern width depth left right c)"
proof -
  have "0 \<le> \<lfloor>(width - of_int c * len left) / len right\<rfloor>"
    using assms by simp
  moreover have "0 \<le> \<lfloor>depth / wid left\<rfloor>" "0 \<le> \<lfloor>depth / wid right\<rfloor>"
    using assms by simp_all
  ultimately show ?thesis
    using assms(1)
    by (simp add: materializeLayerCells_def splitXPattern_def Let_def length_blockCells
        mult.commute)
qed

lemma splitZ_cells:
  assumes "1 \<le> r" and "0 \<le> depth - of_int r * wid front" and "0 < wid back"
    and "0 \<le> width" and "0 < len front" and "0 < len back"
  shows "\<exists>cells. materializeLayerCells (splitZPattern width depth front back r) W D = Inr cells
     \<and> int (length cells) = perLayer (splitZPattern width depth front back r)"
proof -
  have "0 \<le> \<lfloor>(depth - of_int r * wid front) / wid back\<rfloor>"
    using assms by simp
  moreover have "0 \<le> \<lfloor>width / len front\<rfloor>" "0 \<le> \<lfloor>width / len back\<rfloor>"
    using assms by simp_all
  ultimately show ?thesis
    using assms(1)
    by (simp add: materializeLayerCells_def splitZPattern_def Let_def length_blockCells
        mult.commute)
qed

lemma splitXLoop_mem:
  "p \<in> set (splitXLoop width depth left right m c0) \<Longrightarrow>
   \<exists>c. c0 \<le> c \<and> 0 \<le> width - of_int c * len left \<and> p = splitXPattern width depth left right c"
proof (induction width depth left right m c0 rule: splitXLoop.induct)
  case (1 width depth left right maxLeftCols cLeft)
  show ?case
  proof (cases "cLeft \<le> maxLeftCols \<and> \<not> width - of_int cLeft * len left < 0")
    case False
    then show ?thesis using "1.prems" by (subst (asm) splitXLoop.simps) (auto split: if_splits)
  next
    case True
    then have "p = splitXPattern width depth left right cLeft
        \<or> p \<in> set (splitXLoop width depth left right maxLeftCols (cLeft + 1))"
      using "1.prems" by (subst (asm) splitXLoop.simps) auto
    then show ?thesis
    proof
      assume "p = splitXPattern width depth left right cLeft"
      then show ?thesis using True by (intro exI[of _ cLeft]) simp
    next
      assume "p \<in> set (splitXLoop width depth left right maxLeftCols (cLeft + 1))"
      from "1.IH"[OF _ _ this] True obtain c where
        "cLeft + 1 \<le> c" "0 \<le> width - of_int c * len left" "p = splitXPattern width depth left right c"
        by auto
      then show ?thesis by (intro exI[of _ c]) simp
    qed
  qed
qed

lemma splitZLoop_mem:
  "p \<in> set (splitZLoop width depth front bk m r0) \<Longrightarrow>
   \<exists>r. r0 \<le> r \<and> 0 \<le> depth - of_int r * wid front \<and> p = splitZPattern width depth front bk r"
proof (induction width depth front bk m r0 rule: splitZLoop.induct)
  case (1 width depth front bk maxFrontRows rFront)
  show ?case
  proof (cases "rFront \<le> maxFrontRows \<and> \<not> depth - of_int rFront * wid front < 0")
    case False
    then show ?thesis using "1.prems" by (subst (asm) splitZLoop.simps) (auto split: if_splits)
  next
    case True
    then have "p = splitZPattern width depth front bk rFront
        \<or> p \<in> set (splitZLoop width depth front bk maxFrontRows (rFront + 1))"
      using "1.prems" by (subst (asm) splitZLoop.simps) auto
    then show ?thesis
    proof
      assume "p = splitZPattern width depth front bk rFront"
      then show ?thesis using True by (intro exI[of _ rFront]) simp
    next
      assume "p \<in> set (splitZLoop width depth front bk maxFrontRows (rFront + 1))"
      from "1.IH"[OF _ _ this] True obtain r where
        "rFront + 1 \<le> r" "0 \<le> depth - of_int r * wid front" "p = splitZPattern width depth front bk r"
        by auto
      then show ?thesis by (intro exI[of _ r]) simp
    qed
  qed
qed

lemma candidate_cells:
  assumes "p \<in> set (candidates width depth a b)"
    and "0 \<le> width" and "0 \<le> depth"
    and "0 < len a" and "0 < wid a" and "0 < len b" and "0 < wid b"
  shows "\<exists>cells. materializeLayerCells p W D = Inr cells \<and> int (length cells) = perLayer p"
proof -
  from assms(1) consider
      "p = buildGridPattern width depth a" | "p = buildGridPattern width depth b"
    | "p \<in> set (buildSplitXPatterns width depth a b)"
    | "p \<in> set (buildSplitXPatterns width depth b a)"
    | "p \<in> set (buildSplitZPatterns width depth a b)"
    | "p \<in> set (buildSplitZPatterns width depth b a)"
    by (auto simp: candidates_def)
  then show ?thesis
  proof cases
    case 1 then show ?thesis using grid_cells by simp
  next
    case 2 then show ?thesis using grid_cells by simp
  next
    case 3
    then obtain c where "1 \<le> c" "0 \<le> width - of_int c * len a" "p = splitXPattern width depth a b c"
      unfolding buildSplitXPatterns_def using splitXLoop_mem by blast
    then show ?thesis using splitX_cells assms by simp
  next
    case 4
    then obtain c where "1 \<le> c" "0 \<le> width - of_int c * len b" "p = splitXPattern width depth b a c"
      unfolding buildSplitXPatterns_def using splitXLoop_mem by blast
    then show ?thesis using splitX_cells assms by simp
  next
    case 5
    then obtain r where "1 \<le> r" "0 \<le> depth - of_int r * wid a" "p = splitZPattern width depth a b r"
      unfolding buildSplitZPatterns_def using splitZLoop_mem by blast
    then show ?thesis using splitZ_cells assms by simp
  next
    case 6
    then obtain r where "1 \<le> r" "0 \<le> depth - of_int r * wid b" "p = splitZPattern width depth b a r"
      unfolding buildSplitZPatterns_def using splitZLoop_mem by blast
    then show ?thesis using splitZ_cells assms by simp
  qed
qed


section \<open>Placements of one pallet and of all pallets\<close>

lemma placeCells_props:
  "placeCells base pal li cs idc = (ps, idc') \<Longrightarrow>
   length ps = length cs \<and> idc' = idc + length cs \<and> (\<forall>q \<in> set ps. pl_layer q = li)"
proof (induction cs arbitrary: idc ps idc')
  case Nil
  then show ?case by simp
next
  case (Cons c cs)
  obtain ps0 idc0 where r: "placeCells base pal li cs (idc + 1) = (ps0, idc0)"
    by (cases "placeCells base pal li cs (idc + 1)")
  then have e: "ps = placeCell base pal li c idc # ps0" "idc' = idc0"
    using Cons.prems by simp_all
  have "pl_layer (placeCell base pal li c idc) = li"
    by (simp add: placeCell_def Let_def split: prod.splits)
  then show ?case
    using Cons.IH[OF r] e by simp
qed

lemma fullLayerLoop_props:
  assumes "materializeLayerCells pattern (pal_width pal) (pal_depth pal) = Inr cells"
  shows "\<exists>ps. fullLayerLoop pattern base pal n li idc = Inr (ps, idc + n * length cells)
           \<and> length ps = n * length cells
           \<and> (\<forall>q \<in> set ps. li \<le> pl_layer q \<and> pl_layer q < li + n)"
proof (induction n arbitrary: li idc)
  case 0
  show ?case by simp
next
  case (Suc n)
  obtain ps0 idc0 where r: "placeCells base pal li cells idc = (ps0, idc0)"
    by (cases "placeCells base pal li cells idc")
  note p = placeCells_props[OF r]
  from Suc.IH[of "li + 1" idc0] obtain qs where
    q: "fullLayerLoop pattern base pal n (li + 1) idc0 = Inr (qs, idc0 + n * length cells)"
       "length qs = n * length cells"
       "\<forall>q \<in> set qs. li + 1 \<le> pl_layer q \<and> pl_layer q < li + 1 + n"
    by blast
  have "fullLayerLoop pattern base pal (Suc n) li idc = Inr (ps0 @ qs, idc + Suc n * length cells)"
    using assms r q(1) p by simp
  moreover have "length (ps0 @ qs) = Suc n * length cells"
    using p q(2) by simp
  moreover have "\<forall>x \<in> set (ps0 @ qs). li \<le> pl_layer x \<and> pl_layer x < li + Suc n"
    using p q(3) by auto
  ultimately show ?case by blast
qed

lemma buildPlacements_unfold:
  fixes t :: rat and K :: int
  defines "F \<equiv> \<lfloor>t / of_int K\<rfloor>"
  defines "r \<equiv> t - of_int (F * K)"
  assumes mat: "materializeLayerCells pattern (pal_width pal) (pal_depth pal) = Inr cells"
    and K: "perLayer pattern = K" "1 \<le> K" "int (length cells) = K"
    and t: "0 \<le> t" "t \<le> of_int (K * L)"
  shows "\<exists>ps. fullLayerLoop pattern base pal (nat F) 0 idc
               = Inr (ps, idc + nat F * length cells)
     \<and> length ps = nat F * length cells
     \<and> (\<forall>q \<in> set ps. pl_layer q < nat F)
     \<and> 0 \<le> F \<and> F \<le> L \<and> 0 \<le> r \<and> r < of_int K \<and> (0 < r \<longrightarrow> F < L)
     \<and> buildPlacementsForPallet t L pattern base pal idc af =
        (if 0 < r then
           (case placeCells base pal (nat F) (pickCornerEdgePartialCells cells r)
                   (idc + nat F * length cells) of
              (qs, idc'') \<Rightarrow> Inr (ps @ qs, nat F + 1, idc''))
         else Inr (ps, nat F, idc + nat F * length cells))"
proof -
  define n where "n = nat F"
  have Kr: "(0::rat) < of_int K" using K by simp
  have F0: "0 \<le> F" using t Kr by (simp add: F_def)
  have n: "int n = F" using F0 by (simp add: n_def)
  have "t / of_int K \<le> of_int L"
    using t(2) Kr by (simp add: pos_divide_le_eq algebra_simps)
  then have "F \<le> \<lfloor>(of_int L :: rat)\<rfloor>" unfolding F_def by (rule floor_mono)
  then have FL: "F \<le> L" by (simp only: floor_of_int)
  have rr: "r = t - of_int K * of_int F" by (simp add: r_def algebra_simps)
  have r0: "0 \<le> r" and rK: "r < of_int K"
    unfolding rr F_def using floor_rem_bounds[OF Kr, of t] by simp_all
  have lt: "F < L" if "0 < r"
  proof -
    have "F \<noteq> L"
    proof
      assume "F = L"
      then have "t = of_int (K * L) + r" by (simp add: rr algebra_simps)
      then show False using that t(2) by simp
    qed
    then show ?thesis using FL by simp
  qed
  from fullLayerLoop_props[OF mat, of base n 0 idc] obtain ps where
    fl: "fullLayerLoop pattern base pal n 0 idc = Inr (ps, idc + n * length cells)"
        "length ps = n * length cells" "\<forall>q \<in> set ps. pl_layer q < n"
    by auto
  have rem: "t - of_int (int n * K) = r"
    using n by (simp add: r_def)
  have "buildPlacementsForPallet t L pattern base pal idc af =
      (if 0 < r then
         (case placeCells base pal n (pickCornerEdgePartialCells cells r) (idc + n * length cells) of
            (qs, idc'') \<Rightarrow> Inr (ps @ qs, n + 1, idc''))
       else Inr (ps, n, idc + n * length cells))"
    using K FL fl(1) mat rem lt n
    by (simp add: buildPlacementsForPallet_def Let_def min_absorb1 n_def[symmetric]
        F_def[symmetric] max_absorb2 del: of_int_mult)
  then show ?thesis using fl F0 FL r0 rK lt unfolding n_def by blast
qed

lemma pl_layer_placeCell: "pl_layer (placeCell base pal li c idc) = li"
  by (simp add: placeCell_def Let_def split: prod.splits)

lemma minOf_single: "minOf [x] = x"
  by (simp add: minOf_def)

lemma buildPlacements_count:
  assumes mat: "materializeLayerCells pattern (pal_width pal) (pal_depth pal) = Inr cells"
    and K: "perLayer pattern = K" "1 \<le> K" "int (length cells) = K"
    and t: "0 \<le> t" "t \<le> of_int (K * L)"
  shows "\<exists>ps lu idc'. buildPlacementsForPallet t L pattern base pal idc af = Inr (ps, lu, idc')
           \<and> int (length ps) = \<lceil>t\<rceil> \<and> \<lceil>t\<rceil> \<le> K * int lu \<and> int lu \<le> L"
proof -
  define F where "F = \<lfloor>t / of_int K\<rfloor>"
  define r where "r = t - of_int (F * K)"
  define n where "n = nat F"
  from buildPlacements_unfold[OF mat K t, of base idc af] obtain ps where
    lps0: "length ps = n * length cells" and
    F: "0 \<le> F" "F \<le> L" and r: "0 \<le> r" "r < of_int K" "0 < r \<longrightarrow> F < L" and
    head: "buildPlacementsForPallet t L pattern base pal idc af =
      (if 0 < r then
         (case placeCells base pal n (pickCornerEdgePartialCells cells r) (idc + n * length cells) of
            (qs, idc'') \<Rightarrow> Inr (ps @ qs, n + 1, idc''))
       else Inr (ps, n, idc + n * length cells))"
    unfolding n_def r_def F_def by blast
  have n: "int n = F" using F by (simp add: n_def)
  have tFr: "t = of_int (F * K) + r" by (simp add: r_def)
  have ct: "\<lceil>t\<rceil> = F * K + \<lceil>r\<rceil>"
    by (subst tFr) (simp add: ceiling_of_int_add del: of_int_mult)
  have lps: "int (length ps) = F * K"
    using lps0 n K(3) by simp
  show ?thesis
  proof (cases "0 < r")
    case False
    then have z: "r = 0" using r by simp
    then have "\<lceil>t\<rceil> = K * int n" using ct n by (simp add: mult.commute)
    then show ?thesis
      using head z lps n F ct
      by (intro exI[of _ ps] exI[of _ n] exI[of _ "idc + n * length cells"]) simp
  next
    case True
    then have lt: "int n < L" using r n by simp
    obtain qs idc2 where
      pc: "placeCells base pal n (pickCornerEdgePartialCells cells r) (idc + n * length cells)
             = (qs, idc2)"
      by (cases "placeCells base pal n (pickCornerEdgePartialCells cells r) (idc + n * length cells)")
    have cr: "\<lceil>r\<rceil> \<le> K" using r(2) by (simp add: ceiling_le_iff less_imp_le)
    then have "\<lceil>r\<rceil> \<le> int (length cells)" using K(3) by simp
    from pick_exact[OF True this]
    have "int (length (pickCornerEdgePartialCells cells r)) = \<lceil>r\<rceil>" by blast
    then have lq: "int (length qs) = \<lceil>r\<rceil>"
      using placeCells_props[OF pc] by simp
    have res: "buildPlacementsForPallet t L pattern base pal idc af = Inr (ps @ qs, n + 1, idc2)"
      using head True pc by simp
    have "int (length (ps @ qs)) = \<lceil>t\<rceil>" using lps lq ct by simp
    moreover have "\<lceil>t\<rceil> \<le> K * int (n + 1)"
      using ct cr n by (simp add: algebra_simps)
    moreover have "int (n + 1) \<le> L" using lt by simp
    ultimately show ?thesis using res by blast
  qed
qed

lemma palletLoop_props:
  assumes mat: "materializeLayerCells pattern (pal_width pal) (pal_depth pal) = Inr cells"
    and K: "perLayer pattern = K" "1 \<le> K" "int (length cells) = K"
    and ts: "\<forall>t \<in> set targets. 0 \<le> t \<and> t \<le> of_int (K * L)"
  shows "\<exists>prs. palletLoop pattern base pal K L af targets p idc = Inr prs
           \<and> map totalBoxes prs = map (\<lambda>t. \<lceil>t\<rceil>) targets
           \<and> (\<forall>pr \<in> set prs. boxesPerLayer pr = K \<and> totalBoxes pr \<le> K * int (layers pr)
                  \<and> int (layers pr) \<le> L \<and> totalBoxes pr = int (length (placements pr)))"
  using ts
proof (induction targets arbitrary: p idc)
  case Nil
  show ?case by simp
next
  case (Cons t targets)
  have t: "0 \<le> t" "t \<le> of_int (K * L)" using Cons.prems by simp_all
  from buildPlacements_count[OF mat K t, of base idc af] obtain ps lu idc' where
    b: "buildPlacementsForPallet t L pattern base pal idc af = Inr (ps, lu, idc')"
       "int (length ps) = \<lceil>t\<rceil>" "\<lceil>t\<rceil> \<le> K * int lu" "int lu \<le> L"
    by blast
  from Cons.IH[of "p + 1" idc'] Cons.prems obtain prs where
    r: "palletLoop pattern base pal K L af targets (p + 1) idc' = Inr prs"
       "map totalBoxes prs = map (\<lambda>t. \<lceil>t\<rceil>) targets"
       "\<forall>pr \<in> set prs. boxesPerLayer pr = K \<and> totalBoxes pr \<le> K * int (layers pr)
                  \<and> int (layers pr) \<le> L \<and> totalBoxes pr = int (length (placements pr))"
    by auto
  define pr where "pr =
     \<lparr> palletNumber = p + 1, placements = ps, layers = lu, boxesPerLayer = K,
       totalBoxes = int (length ps),
       totalWeight = of_int (int (length ps)) * box_weight base,
       efficiency = min 100 ((of_int (int (length ps)) * box_length base * box_width base * box_height base
                    / max (pal_width pal * pal_depth pal * (pal_maxHeight pal - pal_height pal)) EPS) * 100),
       totalHeight = pal_height pal + of_nat lu * box_height base \<rparr>"
  have A: "palletLoop pattern base pal K L af (t # targets) p idc = Inr (pr # prs)"
    using t b(1) r(1) by (simp add: Let_def min_absorb1 pr_def del: of_int_mult)
  have B: "map totalBoxes (pr # prs) = map (\<lambda>t. \<lceil>t\<rceil>) (t # targets)"
    using r(2) b(2) by (simp add: pr_def)
  have C: "\<forall>x \<in> set (pr # prs). boxesPerLayer x = K \<and> totalBoxes x \<le> K * int (layers x)
                  \<and> int (layers x) \<le> L \<and> totalBoxes x = int (length (placements x))"
    using r(3) b by (auto simp: pr_def)
  show ?case
    by (rule exI[of _ "pr # prs"]) (intro conjI A B C)
qed


section \<open>The success path of the orchestrator\<close>

lemma ceiling_cover:
  assumes "0 < c"
  shows "(a::rat) \<le> of_int (\<lceil>a / of_int c\<rceil> * c)"
proof -
  have "a / of_int c \<le> of_int \<lceil>a / of_int c\<rceil>" by (rule le_of_int_ceiling)
  then have "a \<le> of_int \<lceil>a / of_int c\<rceil> * of_int c"
    using assms by (simp only: pos_divide_le_eq of_int_0_less_iff)
  then show ?thesis by simp
qed

lemma buildTargets_Inr_host:
  "buildTargetsByFullLayers host Q P K L = Inr ts \<Longrightarrow> P \<le> 4294967295 \<and> host P = Allocated"
  by (auto simp: buildTargetsByFullLayers_def newFilledArray_def Let_def
      split: if_splits alloc.splits sum.splits)

lemma validBoxes_props:
  "v \<in> set (validBoxes boxes) \<Longrightarrow>
   0 < box_length v \<and> 0 < box_width v \<and> 0 < box_height v \<and> 0 < box_quantity v"
  by (auto simp: validBoxes_def isValidBox_def split: option.splits)

lemma performCalc_ok:
  assumes "performCalc host boxes pallet = Inr res" and "res_error res = None"
  shows "\<exists>pal v vs pattern targets prs.
      pallet = Some pal \<and> 0 < pal_width pal \<and> 0 < pal_depth pal
    \<and> pal_height pal < pal_maxHeight pal
    \<and> validBoxes boxes = v # vs
    \<and> chooseBestLayerPattern (pal_width pal) (pal_depth pal)
         \<lparr>len = box_length v, wid = box_width v, rot = 0\<rparr>
         \<lparr>len = box_width v, wid = box_length v, rot = 90\<rparr>
         (sum_list (map box_quantity (v # vs))) = Some pattern
    \<and> 0 < \<lfloor>(pal_maxHeight pal - pal_height pal + EPS) / box_height v\<rfloor>
    \<and> buildTargetsByFullLayers host (sum_list (map box_quantity (v # vs)))
         (max 1 \<lceil>sum_list (map box_quantity (v # vs))
                  / of_int (max 1 (perLayer pattern
                           * \<lfloor>(pal_maxHeight pal - pal_height pal + EPS) / box_height v\<rfloor>))\<rceil>)
         (perLayer pattern)
         \<lfloor>(pal_maxHeight pal - pal_height pal + EPS) / box_height v\<rfloor> = Inr targets
    \<and> palletLoop pattern (v\<lparr>box_quantity := sum_list (map box_quantity (v # vs))\<rparr>) pal
         (perLayer pattern) \<lfloor>(pal_maxHeight pal - pal_height pal + EPS) / box_height v\<rfloor>
         (list_all (\<lambda>t. js_fmod t (of_int (perLayer pattern)) = 0) targets) targets 0 0 = Inr prs
    \<and> res_pallets res = prs
    \<and> res_totalPallets res = length prs
    \<and> res_totalBoxes res = sum_list (map totalBoxes prs)"
  using assms unfolding performCalc_def
  by (auto simp: Let_def emptyResult_def not_le
      split: option.splits if_splits list.splits sum.splits alloc.splits)

lemma sum_list_pos:
  assumes "\<forall>x \<in> set xs. 0 < f x" and "xs \<noteq> []"
  shows "0 < (sum_list (map f xs) :: rat)"
proof -
  have nn: "0 \<le> (sum_list (map f ys) :: rat)" if "\<forall>x \<in> set ys. 0 < f x" for ys
    using that by (induction ys) (auto simp: less_imp_le add_nonneg_nonneg)
  obtain y ys where xs: "xs = y # ys" using assms(2) by (cases xs) auto
  have "0 < f y" and "0 \<le> sum_list (map f ys)"
    using assms(1) nn[of ys] by (simp_all add: xs)
  then show ?thesis by (simp add: xs add_pos_nonneg)
qed

text \<open>What holds once the envelope is valid, a box is usable, a pattern is selected and
  a layer fits under the height limit: the pattern has as many cells as its capacity,
  and the minimal pallet count covers the total.\<close>

lemma packing_facts:
  fixes pal :: PalletConfig and v :: BoxType and vs :: "BoxType list"
  defines "Q \<equiv> sum_list (map box_quantity (v # vs))"
  defines "L \<equiv> \<lfloor>(pal_maxHeight pal - pal_height pal + EPS) / box_height v\<rfloor>"
  assumes W: "0 < pal_width pal" and D: "0 < pal_depth pal"
    and vb: "validBoxes boxes = v # vs"
    and cb: "chooseBestLayerPattern (pal_width pal) (pal_depth pal)
         \<lparr>len = box_length v, wid = box_width v, rot = 0\<rparr>
         \<lparr>len = box_width v, wid = box_length v, rot = 90\<rparr> Q = Some pattern"
    and L0: "0 < L"
  shows "0 < Q \<and> 1 \<le> perLayer pattern \<and> 1 \<le> L
    \<and> pattern \<in> set (candidates (pal_width pal) (pal_depth pal)
         \<lparr>len = box_length v, wid = box_width v, rot = 0\<rparr>
         \<lparr>len = box_width v, wid = box_length v, rot = 90\<rparr>)
    \<and> (\<exists>cells. materializeLayerCells pattern (pal_width pal) (pal_depth pal) = Inr cells
          \<and> int (length cells) = perLayer pattern)
    \<and> 1 \<le> max 1 \<lceil>Q / of_int (max 1 (perLayer pattern * L))\<rceil>
    \<and> Q \<le> of_int (max 1 \<lceil>Q / of_int (max 1 (perLayer pattern * L))\<rceil> * perLayer pattern * L)"
proof -
  define K where "K = perLayer pattern"
  define P where "P = max 1 \<lceil>Q / of_int (max 1 (K * L))\<rceil>"
  have vprops: "\<forall>x \<in> set (v # vs). 0 < box_length x \<and> 0 < box_width x \<and> 0 < box_height x
      \<and> 0 < box_quantity x"
    using validBoxes_props[of _ boxes] vb by simp
  have Q0: "0 < Q"
    using sum_list_pos[of "v # vs" box_quantity] vprops by (simp add: Q_def)
  have via: "pattern \<in> set (viable (pal_width pal) (pal_depth pal)
         \<lparr>len = box_length v, wid = box_width v, rot = 0\<rparr>
         \<lparr>len = box_width v, wid = box_length v, rot = 90\<rparr>)"
    using chooseBest_viable[OF cb] .
  then have K1: "1 \<le> K" by (simp add: viable_def fits_def K_def)
  from via have cand: "pattern \<in> set (candidates (pal_width pal) (pal_depth pal)
         \<lparr>len = box_length v, wid = box_width v, rot = 0\<rparr>
         \<lparr>len = box_width v, wid = box_length v, rot = 90\<rparr>)"
    by (simp add: viable_def)
  from candidate_cells[OF cand, of "pal_width pal" "pal_depth pal"] W D vprops
  obtain cells where
    mat: "materializeLayerCells pattern (pal_width pal) (pal_depth pal) = Inr cells" and
    lc: "int (length cells) = K"
    by (auto simp: K_def)
  have L1: "1 \<le> L" using L0 by simp
  have cap: "0 < K * L" using K1 L1 by simp
  then have mx: "max 1 (K * L) = K * L" by simp
  have P1: "1 \<le> P" by (simp add: P_def)
  have "\<lceil>Q / of_int (K * L)\<rceil> * (K * L) \<le> P * (K * L)"
    using cap by (intro mult_right_mono) (simp_all add: P_def mx)
  then have "(of_int (\<lceil>Q / of_int (K * L)\<rceil> * (K * L)) :: rat) \<le> of_int (P * (K * L))"
    by (simp only: of_int_le_iff)
  with ceiling_cover[OF cap, of Q] have "Q \<le> of_int (P * (K * L))" by (rule order_trans)
  then have QP: "Q \<le> of_int (P * K * L)" by (simp only: mult.assoc)
  show ?thesis
    using Q0 K1 L1 cand mat lc P1 QP unfolding K_def P_def by blast
qed

lemma performCalc_success:
  assumes ok: "performCalc host boxes pallet = Inr res" and ne: "res_error res = None"
  shows "\<exists>pal v vs pattern cells targets prs.
      pallet = Some pal \<and> validBoxes boxes = v # vs
    \<and> chooseBestLayerPattern (pal_width pal) (pal_depth pal)
         \<lparr>len = box_length v, wid = box_width v, rot = 0\<rparr>
         \<lparr>len = box_width v, wid = box_length v, rot = 90\<rparr>
         (sum_list (map box_quantity (v # vs))) = Some pattern
    \<and> pattern \<in> set (candidates (pal_width pal) (pal_depth pal)
         \<lparr>len = box_length v, wid = box_width v, rot = 0\<rparr>
         \<lparr>len = box_width v, wid = box_length v, rot = 90\<rparr>)
    \<and> materializeLayerCells pattern (pal_width pal) (pal_depth pal) = Inr cells
    \<and> 1 \<le> perLayer pattern \<and> int (length cells) = perLayer pattern
    \<and> targets = map (targetOf (sum_list (map box_quantity (v # vs)))
         (max 1 \<lceil>sum_list (map box_quantity (v # vs))
                  / of_int (max 1 (perLayer pattern
                           * \<lfloor>(pal_maxHeight pal - pal_height pal + EPS) / box_height v\<rfloor>))\<rceil>)
         (perLayer pattern)
         \<lfloor>(pal_maxHeight pal - pal_height pal + EPS) / box_height v\<rfloor>)
         [0 ..< nat (max 1 \<lceil>sum_list (map box_quantity (v # vs))
                  / of_int (max 1 (perLayer pattern
                           * \<lfloor>(pal_maxHeight pal - pal_height pal + EPS) / box_height v\<rfloor>))\<rceil>)]
    \<and> sum_list (map (\<lambda>t. \<lceil>t\<rceil>) targets) = \<lceil>sum_list (map box_quantity (v # vs))\<rceil>
    \<and> (\<forall>t \<in> set targets. 0 \<le> t
          \<and> t \<le> of_int (perLayer pattern
                 * \<lfloor>(pal_maxHeight pal - pal_height pal + EPS) / box_height v\<rfloor>))
    \<and> palletLoop pattern (v\<lparr>box_quantity := sum_list (map box_quantity (v # vs))\<rparr>) pal
         (perLayer pattern) \<lfloor>(pal_maxHeight pal - pal_height pal + EPS) / box_height v\<rfloor>
         (list_all (\<lambda>t. js_fmod t (of_int (perLayer pattern)) = 0) targets) targets 0 0 = Inr prs
    \<and> res_pallets res = prs
    \<and> res_totalPallets res = length prs
    \<and> res_totalBoxes res = sum_list (map totalBoxes prs)"
proof -
  from performCalc_ok[OF ok ne] obtain pal v vs pattern targets prs where
    pal: "pallet = Some pal" and W: "0 < pal_width pal" and D: "0 < pal_depth pal" and
    vb: "validBoxes boxes = v # vs" and
    cb: "chooseBestLayerPattern (pal_width pal) (pal_depth pal)
         \<lparr>len = box_length v, wid = box_width v, rot = 0\<rparr>
         \<lparr>len = box_width v, wid = box_length v, rot = 90\<rparr>
         (sum_list (map box_quantity (v # vs))) = Some pattern" and
    L0: "0 < \<lfloor>(pal_maxHeight pal - pal_height pal + EPS) / box_height v\<rfloor>" and
    bt: "buildTargetsByFullLayers host (sum_list (map box_quantity (v # vs)))
         (max 1 \<lceil>sum_list (map box_quantity (v # vs))
                  / of_int (max 1 (perLayer pattern
                           * \<lfloor>(pal_maxHeight pal - pal_height pal + EPS) / box_height v\<rfloor>))\<rceil>)
         (perLayer pattern)
         \<lfloor>(pal_maxHeight pal - pal_height pal + EPS) / box_height v\<rfloor> = Inr targets" and
    pl: "palletLoop pattern (v\<lparr>box_quantity := sum_list (map box_quantity (v # vs))\<rparr>) pal
         (perLayer pattern) \<lfloor>(pal_maxHeight pal - pal_height pal + EPS) / box_height v\<rfloor>
         (list_all (\<lambda>t. js_fmod t (of_int (perLayer pattern)) = 0) targets) targets 0 0 = Inr prs" and
    rp: "res_pallets res = prs" and rn: "res_totalPallets res = length prs" and
    rt: "res_totalBoxes res = sum_list (map totalBoxes prs)"
    by blast
  define Q where "Q = sum_list (map box_quantity (v # vs))"
  define K where "K = perLayer pattern"
  define L where "L = \<lfloor>(pal_maxHeight pal - pal_height pal + EPS) / box_height v\<rfloor>"
  define P where "P = max 1 \<lceil>Q / of_int (max 1 (K * L))\<rceil>"
  from packing_facts[OF W D vb cb L0] obtain cells where
    Q0: "0 < Q" and K1: "1 \<le> K" and L1: "1 \<le> L" and
    cand: "pattern \<in> set (candidates (pal_width pal) (pal_depth pal)
         \<lparr>len = box_length v, wid = box_width v, rot = 0\<rparr>
         \<lparr>len = box_width v, wid = box_length v, rot = 90\<rparr>)" and
    mat: "materializeLayerCells pattern (pal_width pal) (pal_depth pal) = Inr cells" and
    lc: "int (length cells) = K" and P1: "1 \<le> P" and QP: "Q \<le> of_int (P * K * L)"
    unfolding Q_def K_def L_def P_def by blast
  have bt': "buildTargetsByFullLayers host Q P K L = Inr targets"
    using bt by (simp add: Q_def P_def K_def L_def)
  from buildTargets_Inr_host[OF bt'] have P32: "P \<le> 4294967295" and H: "host P = Allocated"
    by simp_all
  from buildTargets_closed_form[where host = host and P = P, OF Q0 P1 P32 H K1 L1 QP] bt'
  have tg: "targets = map (targetOf Q P K L) [0 ..< nat P]" and
    sm: "sum_list (map (\<lambda>t. \<lceil>t\<rceil>) targets) = \<lceil>Q\<rceil>" and
    bd: "\<forall>i < nat P. 0 \<le> targetOf Q P K L i \<and> targetOf Q P K L i \<le> of_int (K * L)"
    by simp_all
  have ts: "\<forall>t \<in> set targets. 0 \<le> t \<and> t \<le> of_int (K * L)"
    using bd by (auto simp: tg)
  show ?thesis
    using pal vb cb cand mat K1 lc tg sm ts pl rp rn rt unfolding Q_def K_def L_def P_def by blast
qed

lemma performCalc_pallet_facts:
  assumes ok: "performCalc host boxes pallet = Inr res" and ne: "res_error res = None"
  shows "\<exists>pal v vs. pallet = Some pal \<and> validBoxes boxes = v # vs
      \<and> res_pallets res \<noteq> []
      \<and> sum_list (map totalBoxes (res_pallets res)) = \<lceil>sum_list (map box_quantity (v # vs))\<rceil>
      \<and> res_totalBoxes res = \<lceil>sum_list (map box_quantity (v # vs))\<rceil>
      \<and> res_totalPallets res = length (res_pallets res)
      \<and> (\<forall>pr \<in> set (res_pallets res).
            0 < boxesPerLayer pr
          \<and> totalBoxes pr \<le> boxesPerLayer pr * int (layers pr)
          \<and> int (layers pr) \<le> \<lfloor>(pal_maxHeight pal - pal_height pal + EPS) / box_height v\<rfloor>
          \<and> totalBoxes pr = int (length (placements pr)))"
proof -
  from performCalc_success[OF ok ne] obtain pal v vs pattern cells targets prs where
    pal: "pallet = Some pal" and vb: "validBoxes boxes = v # vs" and
    mat: "materializeLayerCells pattern (pal_width pal) (pal_depth pal) = Inr cells" and
    K1: "1 \<le> perLayer pattern" and lc: "int (length cells) = perLayer pattern" and
    tg: "targets = map (targetOf (sum_list (map box_quantity (v # vs)))
         (max 1 \<lceil>sum_list (map box_quantity (v # vs))
                  / of_int (max 1 (perLayer pattern
                           * \<lfloor>(pal_maxHeight pal - pal_height pal + EPS) / box_height v\<rfloor>))\<rceil>)
         (perLayer pattern)
         \<lfloor>(pal_maxHeight pal - pal_height pal + EPS) / box_height v\<rfloor>)
         [0 ..< nat (max 1 \<lceil>sum_list (map box_quantity (v # vs))
                  / of_int (max 1 (perLayer pattern
                           * \<lfloor>(pal_maxHeight pal - pal_height pal + EPS) / box_height v\<rfloor>))\<rceil>)]" and
    sm: "sum_list (map (\<lambda>t. \<lceil>t\<rceil>) targets) = \<lceil>sum_list (map box_quantity (v # vs))\<rceil>" and
    ts: "\<forall>t \<in> set targets. 0 \<le> t
          \<and> t \<le> of_int (perLayer pattern
                 * \<lfloor>(pal_maxHeight pal - pal_height pal + EPS) / box_height v\<rfloor>)" and
    pl: "palletLoop pattern (v\<lparr>box_quantity := sum_list (map box_quantity (v # vs))\<rparr>) pal
         (perLayer pattern) \<lfloor>(pal_maxHeight pal - pal_height pal + EPS) / box_height v\<rfloor>
         (list_all (\<lambda>t. js_fmod t (of_int (perLayer pattern)) = 0) targets) targets 0 0 = Inr prs" and
    rp: "res_pallets res = prs" and rn: "res_totalPallets res = length prs" and
    rt: "res_totalBoxes res = sum_list (map totalBoxes prs)"
    by blast
  define K where "K = perLayer pattern"
  define L where "L = \<lfloor>(pal_maxHeight pal - pal_height pal + EPS) / box_height v\<rfloor>"
  from palletLoop_props[OF mat refl K1 lc ts,
      of "v\<lparr>box_quantity := sum_list (map box_quantity (v # vs))\<rparr>"
         "list_all (\<lambda>t. js_fmod t (of_int (perLayer pattern)) = 0) targets" 0 0] pl
  have mt: "map totalBoxes prs = map (\<lambda>t. \<lceil>t\<rceil>) targets" and
    pp: "\<forall>pr \<in> set prs. boxesPerLayer pr = K \<and> totalBoxes pr \<le> K * int (layers pr)
                  \<and> int (layers pr) \<le> L \<and> totalBoxes pr = int (length (placements pr))"
    unfolding K_def L_def by auto
  have "length targets \<noteq> 0" unfolding tg by simp
  then have "length (map totalBoxes prs) \<noteq> 0" unfolding mt by simp
  then have "res_pallets res \<noteq> []" using rp by auto
  moreover have "sum_list (map totalBoxes (res_pallets res)) = \<lceil>sum_list (map box_quantity (v # vs))\<rceil>"
    using mt sm rp by simp
  moreover have "res_totalBoxes res = \<lceil>sum_list (map box_quantity (v # vs))\<rceil>"
    using mt sm rt by simp
  moreover have "res_totalPallets res = length (res_pallets res)"
    using rn rp by simp
  moreover have "\<forall>pr \<in> set (res_pallets res).
            0 < boxesPerLayer pr
          \<and> totalBoxes pr \<le> boxesPerLayer pr * int (layers pr)
          \<and> int (layers pr) \<le> L
          \<and> totalBoxes pr = int (length (placements pr))"
    using pp rp K1 unfolding K_def by auto
  ultimately show ?thesis
    using pal vb unfolding L_def by blast
qed

lemma demo_ok: "performCalc demoHost demoBoxes (Some demoPallet) = Inr demoResult"
proof -
  have "\<not> isl (performCalc demoHost demoBoxes (Some demoPallet))" by code_simp
  then show ?thesis
    unfolding demoResult_def by simp
qed

lemma demo_no_error: "res_error demoResult = None"
  by code_simp

lemma demo_valid: "validBoxes demoBoxes = mkBox 2 3 1 3 # [mkBox 2 3 1 1]"
  by (simp add: validBoxes_def isValidBox_def demoBoxes_def mkBox_def)

section \<open>The public boundary\<close>







section \<open>Quantity conservation and the capacity bound\<close>




text \<open>
  C6 (capacity bound), amended by the tolerance of the layer count.  For every pallet of
  a non-error result, \<open>totalBoxes \<le> boxesPerLayer * layers\<close>, and
  \<open>boxesPerLayer * layers \<le> boxesPerLayer * floor((maxHeight - deckHeight + 1e-6) / boxHeight)\<close>,
  where \<open>boxHeight\<close> is the height of the first valid box.
\<close>

theorem capacity_bound:
  assumes "performCalc host boxes (Some pal) = Inr res" and "res_error res = None"
    and "validBoxes boxes = v # vs" and "pr \<in> set (res_pallets res)"
  shows "totalBoxes pr \<le> boxesPerLayer pr * int (layers pr)
       \<and> boxesPerLayer pr * int (layers pr)
           \<le> boxesPerLayer pr * \<lfloor>(pal_maxHeight pal - pal_height pal + 1 / 1000000) / box_height v\<rfloor>"
proof -
  from performCalc_pallet_facts[OF assms(1,2)] assms(3,4)
  have a: "0 < boxesPerLayer pr" and b: "totalBoxes pr \<le> boxesPerLayer pr * int (layers pr)"
    and c: "int (layers pr) \<le> \<lfloor>(pal_maxHeight pal - pal_height pal + EPS) / box_height v\<rfloor>"
    by auto
  from c a have "boxesPerLayer pr * int (layers pr)
      \<le> boxesPerLayer pr * \<lfloor>(pal_maxHeight pal - pal_height pal + EPS) / box_height v\<rfloor>"
    by (intro mult_left_mono) simp_all
  then show ?thesis using b by (simp add: EPS_def)
qed

theorem capacity_bound_witness:
  "performCalc demoHost demoBoxes (Some demoPallet) = Inr demoResult \<and> res_error demoResult = None
   \<and> validBoxes demoBoxes = mkBox 2 3 1 3 # [mkBox 2 3 1 1]
   \<and> hd (res_pallets demoResult) \<in> set (res_pallets demoResult)
   \<and> totalBoxes (hd (res_pallets demoResult))
       \<le> boxesPerLayer (hd (res_pallets demoResult)) * int (layers (hd (res_pallets demoResult)))
   \<and> boxesPerLayer (hd (res_pallets demoResult)) * int (layers (hd (res_pallets demoResult)))
       \<le> boxesPerLayer (hd (res_pallets demoResult))
           * \<lfloor>(pal_maxHeight demoPallet - pal_height demoPallet + 1 / 1000000)
               / box_height (mkBox 2 3 1 3)\<rfloor>"
proof -
  have "res_pallets demoResult \<noteq> []" by code_simp
  then have m: "hd (res_pallets demoResult) \<in> set (res_pallets demoResult)" by simp
  show ?thesis
    using capacity_bound[OF demo_ok demo_no_error demo_valid m] demo_ok demo_no_error demo_valid m
    by simp
qed

text \<open>The bound as stated, without the tolerance, fails: with a clearance of
  \<open>7.9999995\<close> and a box height of \<open>8\<close> the result holds one layer of the 16-box
  pattern, while \<open>floor(7.9999995 / 8) = 0\<close>.\<close>

theorem capacity_bound_counterexample:
  "performCalc demoHost (Some [Some (mkBox 12 10 8 1)]) (Some tightPallet) = Inr tightResult
   \<and> res_error tightResult = None
   \<and> map (\<lambda>pr. (boxesPerLayer pr * int (layers pr),
                  boxesPerLayer pr
                    * \<lfloor>(pal_maxHeight tightPallet - pal_height tightPallet) / box_height (mkBox 12 10 8 1)\<rfloor>))
        (res_pallets tightResult) = [(16, 0)]"
proof -
  have "\<not> isl (performCalc demoHost (Some [Some (mkBox 12 10 8 1)]) (Some tightPallet))"
    by code_simp
  then have "performCalc demoHost (Some [Some (mkBox 12 10 8 1)]) (Some tightPallet) = Inr tightResult"
    unfolding tightResult_def by simp
  moreover have "res_error tightResult = None" by code_simp
  moreover have "map (\<lambda>pr. (boxesPerLayer pr * int (layers pr),
                  boxesPerLayer pr
                    * \<lfloor>(pal_maxHeight tightPallet - pal_height tightPallet) / box_height (mkBox 12 10 8 1)\<rfloor>))
        (res_pallets tightResult) = [(16, 0)]"
    by code_simp
  ultimately show ?thesis by simp
qed

section \<open>Scenario E: one box more than a full layer\<close>

lemma ceiling_quotient_le_one:
  "0 < c \<Longrightarrow> a \<le> of_int c \<Longrightarrow> \<lceil>(a::rat) / of_int c\<rceil> \<le> 1"
  by (simp add: ceiling_le_iff pos_divide_le_eq)

lemma nearest_min_gen:
  assumes "nearest f rest best bestD = Some i"
    and "case best of None \<Rightarrow> bestD = None | Some b \<Rightarrow> bestD = Some (f b)"
  shows "(\<forall>j \<in> set rest. f i \<le> f j) \<and> (\<forall>b. best = Some b \<longrightarrow> f i \<le> f b)"
  using assms
proof (induction f rest best bestD rule: nearest.induct)
  case (1 f best bestD)
  then show ?case by simp
next
  case (2 f j rest best bestD)
  show ?case
  proof (cases "case bestD of None \<Rightarrow> True | Some bd \<Rightarrow> f j < bd")
    case True
    then have r: "nearest f rest (Some j) (Some (f j)) = Some i"
      using "2.prems"(1) by (simp add: Let_def)
    from "2.IH"(1)[OF refl True r] have a: "\<forall>k \<in> set rest. f i \<le> f k" and b: "f i \<le> f j"
      by simp_all
    have "\<forall>b. best = Some b \<longrightarrow> f i \<le> f b"
      using True "2.prems"(2) b by (auto split: option.splits)
    then show ?thesis using a b by simp
  next
    case False
    then have r: "nearest f rest best bestD = Some i"
      using "2.prems"(1) by (simp add: Let_def)
    from "2.IH"(2)[OF refl False r "2.prems"(2)]
    have a: "\<forall>k \<in> set rest. f i \<le> f k" and b: "\<forall>b. best = Some b \<longrightarrow> f i \<le> f b"
      by simp_all
    from False obtain bd where bd: "bestD = Some bd" "\<not> f j < bd"
      by (auto split: option.splits)
    then obtain b0 where b0: "best = Some b0" "bd = f b0"
      using "2.prems"(2) by (auto split: option.splits)
    then have "f i \<le> f j" using b bd by auto
    then show ?thesis using a b by simp
  qed
qed

lemma nearest_min:
  "nearest f rest None None = Some i \<Longrightarrow> \<forall>j \<in> set rest. f i \<le> f j"
  using nearest_min_gen[of f rest None None i] by simp

lemma edgeLoop_done:
  "r \<le> of_nat (length picked) \<Longrightarrow> edgeLoop cells r score picked remaining = picked"
  by (subst edgeLoop.simps) simp

lemma pick_one:
  assumes "2 \<le> length cells"
  shows "\<exists>i < length cells. pickCornerEdgePartialCells cells 1 = [cells ! i]
      \<and> ((\<exists>c \<in> set cells. frontLeftCell cells c) \<longrightarrow> frontLeftCell cells (cells ! i))
      \<and> ((\<forall>c \<in> set cells. \<not> frontLeftCell cells c) \<longrightarrow>
           (\<forall>c \<in> set cells.
              dist2 (cells ! i) (minOf (map cell_x cells)) (minOf (map cell_z cells))
              \<le> dist2 c (minOf (map cell_x cells)) (minOf (map cell_z cells))))"
proof -
  have ne: "cells \<noteq> []" using assms by auto
  define minX where "minX = minOf (map cell_x cells)"
  define minZ where "minZ = minOf (map cell_z cells)"
  show ?thesis
  proof (cases "find (\<lambda>i. i < length cells \<and> cell_x (cells ! i) = minX \<and> cell_z (cells ! i) = minZ)
                  [0 ..< length cells]")
    case (Some i)
    then have i: "i < length cells" "cell_x (cells ! i) = minX" "cell_z (cells ! i) = minZ"
      by (auto simp: find_Some_iff)
    have "pickCornerEdgePartialCells cells 1 = [cells ! i]"
      using ne Some
      by (simp add: pickCornerEdgePartialCells_def Let_def minX_def[symmetric] minZ_def[symmetric]
          edgeLoop_done)
    moreover have "frontLeftCell cells (cells ! i)"
      using i by (simp add: frontLeftCell_def minX_def minZ_def)
    ultimately show ?thesis using i(1) by auto
  next
    case None
    then have nofl: "\<forall>c \<in> set cells. \<not> frontLeftCell cells c"
      by (auto simp: find_None_iff frontLeftCell_def minX_def minZ_def in_set_conv_nth)
    have "[0 ..< length cells] \<noteq> []" using ne by simp
    then obtain best where
      b: "nearest (\<lambda>i. dist2 (cells ! i) minX minZ) [0 ..< length cells] None None = Some best"
      using nearest_nonempty[of "[0 ..< length cells]"] by fastforce
    then have bl: "best < length cells"
      using nearest_in_set[OF b] by simp
    have mn: "\<forall>j < length cells. dist2 (cells ! best) minX minZ \<le> dist2 (cells ! j) minX minZ"
      using nearest_min[OF b] by simp
    have "pickCornerEdgePartialCells cells 1 = [cells ! best]"
      using ne None b
      by (simp add: pickCornerEdgePartialCells_def Let_def minX_def[symmetric] minZ_def[symmetric]
          edgeLoop_done)
    moreover have "\<forall>c \<in> set cells. dist2 (cells ! best) minX minZ \<le> dist2 c minX minZ"
      using mn by (auto simp: in_set_conv_nth)
    ultimately show ?thesis
      using bl nofl unfolding minX_def minZ_def by blast
  qed
qed

text \<open>
  C9 (scenario E), amended in the position of the single box of layer 1.  For every
  valid input whose aggregate quantity is \<open>K + 1\<close>, with \<open>K\<close> the capacity of the
  selected pattern, and whose envelope admits at least two layers, the result has
  exactly one pallet with two layers; layer 0 holds exactly \<open>K\<close> placements and layer 1
  exactly one.  That one is placed from a cell of the materialized layer: a cell at the
  front-left grid corner whenever the layer has a cell there, and otherwise a cell
  nearest (in squared distance of its centre) to the front-left corner of the layer's
  bounding box.
\<close>

theorem scenario_E:
  assumes ok: "performCalc host boxes (Some pal) = Inr res" and ne: "res_error res = None"
    and vb: "validBoxes boxes = v # vs"
    and cb: "chooseBestLayerPattern (pal_width pal) (pal_depth pal)
               \<lparr>len = box_length v, wid = box_width v, rot = 0\<rparr>
               \<lparr>len = box_width v, wid = box_length v, rot = 90\<rparr>
               (sum_list (map box_quantity (v # vs))) = Some pattern"
    and q: "sum_list (map box_quantity (v # vs)) = of_int (perLayer pattern) + 1"
    and l2: "2 \<le> \<lfloor>(pal_maxHeight pal - pal_height pal + EPS) / box_height v\<rfloor>"
    and mat: "materializeLayerCells pattern (pal_width pal) (pal_depth pal) = Inr cells"
  shows "\<exists>pr c idc. res_pallets res = [pr] \<and> layers pr = 2
     \<and> int (length (filter (\<lambda>p. pl_layer p = 0) (placements pr))) = perLayer pattern
     \<and> c \<in> set cells
     \<and> filter (\<lambda>p. pl_layer p = 1) (placements pr)
         = [placeCell (v\<lparr>box_quantity := of_int (perLayer pattern) + 1\<rparr>) pal 1 c idc]
     \<and> ((\<exists>c' \<in> set cells. frontLeftCell cells c') \<longrightarrow> frontLeftCell cells c)
     \<and> ((\<forall>c' \<in> set cells. \<not> frontLeftCell cells c') \<longrightarrow>
          (\<forall>c' \<in> set cells.
             dist2 c (minOf (map cell_x cells)) (minOf (map cell_z cells))
             \<le> dist2 c' (minOf (map cell_x cells)) (minOf (map cell_z cells))))"
proof -
  define K where "K = perLayer pattern"
  define L where "L = \<lfloor>(pal_maxHeight pal - pal_height pal + EPS) / box_height v\<rfloor>"
  define Q :: rat where "Q = of_int K + 1"
  define base where "base = v\<lparr>box_quantity := Q\<rparr>"
  from performCalc_ok[OF ok ne] vb cb q obtain targets prs where
    W: "0 < pal_width pal" and D: "0 < pal_depth pal" and
    bt: "buildTargetsByFullLayers host Q (max 1 \<lceil>Q / of_int (max 1 (K * L))\<rceil>) K L = Inr targets" and
    pl: "palletLoop pattern base pal K L (list_all (\<lambda>t. js_fmod t (of_int K) = 0) targets) targets 0 0
           = Inr prs" and
    rp: "res_pallets res = prs"
    unfolding K_def L_def base_def Q_def by auto
  have vprops: "0 < box_length v \<and> 0 < box_width v \<and> 0 < box_height v \<and> 0 < box_quantity v"
    using validBoxes_props[of v boxes] vb by simp
  have via: "pattern \<in> set (viable (pal_width pal) (pal_depth pal)
         \<lparr>len = box_length v, wid = box_width v, rot = 0\<rparr>
         \<lparr>len = box_width v, wid = box_length v, rot = 90\<rparr>)"
    using chooseBest_viable[OF cb] .
  then have K1: "1 \<le> K" by (simp add: viable_def fits_def K_def)
  from via have "pattern \<in> set (candidates (pal_width pal) (pal_depth pal)
         \<lparr>len = box_length v, wid = box_width v, rot = 0\<rparr>
         \<lparr>len = box_width v, wid = box_length v, rot = 90\<rparr>)"
    by (simp add: viable_def)
  from candidate_cells[OF this, of "pal_width pal" "pal_depth pal"] W D vprops mat
  have lc: "int (length cells) = K"
    by (auto simp: K_def)
  have L2: "2 \<le> L" using l2 by (simp add: L_def)
  have Qi: "Q = of_int (K + 1)" by (simp add: Q_def)
  have "K * 2 \<le> K * L" using K1 L2 by (intro mult_left_mono) simp_all
  then have cap: "K + 1 \<le> K * L" using K1 by linarith
  then have cap0: "0 < K * L" using K1 by linarith
  have capr: "Q \<le> of_int (K * L)"
    unfolding Qi using cap by (simp only: of_int_le_iff)
  have P: "max 1 \<lceil>Q / of_int (max 1 (K * L))\<rceil> = 1"
    using ceiling_quotient_le_one[OF cap0 capr] cap0 by (simp add: max_absorb2 max_absorb1)
  have bt1: "buildTargetsByFullLayers host Q 1 K L = Inr targets"
    using bt unfolding P .
  have h1: "host 1 = Allocated" using buildTargets_Inr_host[OF bt1] by simp
  have q0: "0 < Q" and p1: "(1::int) \<le> 1" and p32: "(1::int) \<le> 4294967295"
    and l1: "1 \<le> L"
    using K1 L2 by (simp_all add: Q_def)
  have c1: "Q \<le> of_int (1 * K * L)"
    unfolding mult_1 by (rule capr)
  have "targets = map (targetOf Q 1 K L) [0 ..< nat 1] \<and> sum_list targets = Q"
    using buildTargets_closed_form[where host = host and P = 1, OF q0 p1 p32 h1 K1 l1 c1] bt1
    by simp
  then have tg: "targets = [Q]"
    by auto
  have Q0: "0 \<le> Q" using q0 by simp
  have fd: "\<lfloor>Q / of_int K\<rfloor> = (K + 1) div K"
    unfolding Qi by (simp only: floor_divide_of_int_eq)
  have fr: "Q - of_int ((K + 1) div K * K) = of_int ((K + 1) mod K)"
    unfolding Qi by (simp add: algebra_simps flip: of_int_diff of_int_mult minus_mult_div_eq_mod)
  obtain ps where
    fl: "fullLayerLoop pattern base pal (nat ((K + 1) div K)) 0 0
               = Inr (ps, 0 + nat ((K + 1) div K) * length cells)" and
    lps: "length ps = nat ((K + 1) div K) * length cells" and
    lay: "\<forall>q \<in> set ps. pl_layer q < nat ((K + 1) div K)" and
    bp: "buildPlacementsForPallet Q L pattern base pal 0
           (list_all (\<lambda>t. js_fmod t (of_int K) = 0) targets) =
        (if (0::rat) < of_int ((K + 1) mod K) then
           (case placeCells base pal (nat ((K + 1) div K))
                   (pickCornerEdgePartialCells cells (of_int ((K + 1) mod K)))
                   (0 + nat ((K + 1) div K) * length cells) of
              (qs, idc'') \<Rightarrow> Inr (ps @ qs, nat ((K + 1) div K) + 1, idc''))
         else Inr (ps, nat ((K + 1) div K), 0 + nat ((K + 1) div K) * length cells))"
    using buildPlacements_unfold[OF mat K_def[symmetric] K1 lc Q0 capr,
        of base 0 "list_all (\<lambda>t. js_fmod t (of_int K) = 0) targets"]
    unfolding fd fr by blast
  have main: "\<exists>placed idc' c idc. buildPlacementsForPallet Q L pattern base pal 0
                 (list_all (\<lambda>t. js_fmod t (of_int K) = 0) targets) = Inr (placed, 2, idc')
      \<and> int (length (filter (\<lambda>p. pl_layer p = 0) placed)) = K
      \<and> c \<in> set cells
      \<and> filter (\<lambda>p. pl_layer p = 1) placed = [placeCell base pal 1 c idc]
      \<and> ((\<exists>c' \<in> set cells. frontLeftCell cells c') \<longrightarrow> frontLeftCell cells c)
      \<and> ((\<forall>c' \<in> set cells. \<not> frontLeftCell cells c') \<longrightarrow>
          (\<forall>c' \<in> set cells.
             dist2 c (minOf (map cell_x cells)) (minOf (map cell_z cells))
             \<le> dist2 c' (minOf (map cell_x cells)) (minOf (map cell_z cells))))"
  proof (cases "K = 1")
    case True
    then obtain c where c: "cells = [c]"
      using lc by (cases cells) auto
    have ps: "ps = [placeCell base pal 0 c 0, placeCell base pal 1 c 1]"
      using fl mat by (simp add: True c numeral_2_eq_2)
    have b: "buildPlacementsForPallet Q L pattern base pal 0
                 (list_all (\<lambda>t. js_fmod t (of_int K) = 0) targets) = Inr (ps, 2, 2)"
      using bp by (simp add: True c)
    have f: "frontLeftCell cells c"
      by (simp add: frontLeftCell_def c minOf_single)
    show ?thesis
      apply (rule exI[of _ ps], rule exI[of _ 2], rule exI[of _ c], rule exI[of _ 1])
      using b f by (simp add: ps pl_layer_placeCell True c)
  next
    case False
    then have K2: "2 \<le> K" using K1 by simp
    have dv: "(K + 1) div K = 1" using K2 by (intro int_div_pos_eq[where r = 1]) simp_all
    have md: "(K + 1) mod K = 1" using K2 by (intro int_mod_pos_eq[where q = 1]) simp_all
    have "2 \<le> length cells" using lc K2 by simp
    from pick_one[OF this] obtain i where
      i: "i < length cells" "pickCornerEdgePartialCells cells 1 = [cells ! i]"
         "(\<exists>c \<in> set cells. frontLeftCell cells c) \<longrightarrow> frontLeftCell cells (cells ! i)"
         "(\<forall>c \<in> set cells. \<not> frontLeftCell cells c) \<longrightarrow>
           (\<forall>c \<in> set cells.
              dist2 (cells ! i) (minOf (map cell_x cells)) (minOf (map cell_z cells))
              \<le> dist2 c (minOf (map cell_x cells)) (minOf (map cell_z cells)))"
      by blast
    have b: "buildPlacementsForPallet Q L pattern base pal 0
                 (list_all (\<lambda>t. js_fmod t (of_int K) = 0) targets)
             = Inr (ps @ [placeCell base pal 1 (cells ! i) (length cells)], 2, length cells + 1)"
      using bp unfolding dv md by (simp add: i(2))
    have l0: "\<forall>q \<in> set ps. pl_layer q = 0" using lay by (simp add: dv)
    have f0: "filter (\<lambda>p. pl_layer p = 0) (ps @ [placeCell base pal 1 (cells ! i) (length cells)]) = ps"
      using l0 by (simp add: pl_layer_placeCell)
    have f1: "filter (\<lambda>p. pl_layer p = 1) (ps @ [placeCell base pal 1 (cells ! i) (length cells)])
               = [placeCell base pal 1 (cells ! i) (length cells)]"
      using l0 by (simp add: pl_layer_placeCell)
    have lp: "int (length ps) = K" using lps lc by (simp add: dv)
    show ?thesis
      apply (rule exI[of _ "ps @ [placeCell base pal 1 (cells ! i) (length cells)]"],
             rule exI[of _ "length cells + 1"], rule exI[of _ "cells ! i"], rule exI[of _ "length cells"])
      using b f0 f1 lp i by simp
  qed
  then obtain placed idc' c idc where
    b: "buildPlacementsForPallet Q L pattern base pal 0
                 (list_all (\<lambda>t. js_fmod t (of_int K) = 0) targets) = Inr (placed, 2, idc')" and
    r: "int (length (filter (\<lambda>p. pl_layer p = 0) placed)) = K"
       "c \<in> set cells"
       "filter (\<lambda>p. pl_layer p = 1) placed = [placeCell base pal 1 c idc]"
       "(\<exists>c' \<in> set cells. frontLeftCell cells c') \<longrightarrow> frontLeftCell cells c"
       "(\<forall>c' \<in> set cells. \<not> frontLeftCell cells c') \<longrightarrow>
          (\<forall>c' \<in> set cells.
             dist2 c (minOf (map cell_x cells)) (minOf (map cell_z cells))
             \<le> dist2 c' (minOf (map cell_x cells)) (minOf (map cell_z cells)))"
    by blast
  have mn: "min Q (of_int (K * L)) = Q" using capr by (rule min_absorb1)
  obtain pr where pr: "prs = [pr]" "placements pr = placed" "layers pr = 2"
    using pl b unfolding tg by (auto simp: Let_def mn simp del: of_int_mult)
  show ?thesis
    apply (rule exI[of _ pr], rule exI[of _ c], rule exI[of _ idc])
    using rp pr r unfolding K_def base_def Q_def by simp
qed

theorem scenario_E_witness:
  "performCalc demoHost demoBoxes (Some demoPallet) = Inr demoResult \<and> res_error demoResult = None
   \<and> validBoxes demoBoxes = mkBox 2 3 1 3 # [mkBox 2 3 1 1]
   \<and> sum_list (map box_quantity (mkBox 2 3 1 3 # [mkBox 2 3 1 1])) = of_int (perLayer demoPattern) + 1
   \<and> 2 \<le> \<lfloor>(pal_maxHeight demoPallet - pal_height demoPallet + EPS) / box_height (mkBox 2 3 1 3)\<rfloor>
   \<and> materializeLayerCells demoPattern (pal_width demoPallet) (pal_depth demoPallet) = Inr demoCells
   \<and> (\<exists>pr c idc. res_pallets demoResult = [pr] \<and> layers pr = 2
     \<and> int (length (filter (\<lambda>p. pl_layer p = 0) (placements pr))) = perLayer demoPattern
     \<and> c \<in> set demoCells
     \<and> filter (\<lambda>p. pl_layer p = 1) (placements pr)
         = [placeCell (mkBox 2 3 1 3\<lparr>box_quantity := of_int (perLayer demoPattern) + 1\<rparr>)
              demoPallet 1 c idc]
     \<and> ((\<exists>c' \<in> set demoCells. frontLeftCell demoCells c') \<longrightarrow> frontLeftCell demoCells c)
     \<and> ((\<forall>c' \<in> set demoCells. \<not> frontLeftCell demoCells c') \<longrightarrow>
          (\<forall>c' \<in> set demoCells.
             dist2 c (minOf (map cell_x demoCells)) (minOf (map cell_z demoCells))
             \<le> dist2 c' (minOf (map cell_x demoCells)) (minOf (map cell_z demoCells)))))"
proof -
  have cb: "chooseBestLayerPattern (pal_width demoPallet) (pal_depth demoPallet)
               \<lparr>len = box_length (mkBox 2 3 1 3), wid = box_width (mkBox 2 3 1 3), rot = 0\<rparr>
               \<lparr>len = box_width (mkBox 2 3 1 3), wid = box_length (mkBox 2 3 1 3), rot = 90\<rparr>
               (sum_list (map box_quantity (mkBox 2 3 1 3 # [mkBox 2 3 1 1]))) = Some demoPattern"
    by code_simp
  have q: "sum_list (map box_quantity (mkBox 2 3 1 3 # [mkBox 2 3 1 1]))
             = of_int (perLayer demoPattern) + 1"
    by code_simp
  have l2: "2 \<le> \<lfloor>(pal_maxHeight demoPallet - pal_height demoPallet + EPS) / box_height (mkBox 2 3 1 3)\<rfloor>"
    by code_simp
  have mat: "materializeLayerCells demoPattern (pal_width demoPallet) (pal_depth demoPallet) = Inr demoCells"
    by code_simp
  show ?thesis
    using scenario_E[OF demo_ok demo_no_error demo_valid cb q l2 mat]
      demo_ok demo_no_error demo_valid q l2 mat
    by blast
qed

text \<open>The claim as stated fails on a 5 x 4 deck with four 2 x 3 boxes: the selected
  split pattern holds 3 boxes per layer, the single box of layer 1 is placed at the
  centre \<open>(-1.499999, 0)\<close>, and the only grid-corner cells of the layer are the two
  cells of the right block.\<close>

theorem scenario_E_counterexample:
  "performCalc demoHost (Some [Some (mkBox 2 3 1 4)]) (Some demoPallet)
     = Inr (projr (performCalc demoHost (Some [Some (mkBox 2 3 1 4)]) (Some demoPallet)))
   \<and> res_error (projr (performCalc demoHost (Some [Some (mkBox 2 3 1 4)]) (Some demoPallet))) = None
   \<and> chooseBestLayerPattern 5 4 demoA demoB 4 = Some demoPattern
   \<and> perLayer demoPattern + 1 = 4
   \<and> 2 \<le> \<lfloor>(pal_maxHeight demoPallet - pal_height demoPallet) / box_height (mkBox 2 3 1 4)\<rfloor>
   \<and> materializeLayerCells demoPattern 5 4 = Inr demoCells
   \<and> map (layerCentres 1) (res_pallets (projr (performCalc demoHost (Some [Some (mkBox 2 3 1 4)]) (Some demoPallet))))
       = [[(- (1499999 / 1000000), 0)]]
   \<and> cornerCentres demoPallet demoCells
       = [(999999 / 1000000, - (999999 / 1000000)), (999999 / 1000000, 999999 / 1000000)]
   \<and> (- (1499999 / 1000000), 0) \<notin> set (cornerCentres demoPallet demoCells)"
proof -
  have "\<not> isl (performCalc demoHost (Some [Some (mkBox 2 3 1 4)]) (Some demoPallet))" by code_simp
  then have a: "performCalc demoHost (Some [Some (mkBox 2 3 1 4)]) (Some demoPallet)
     = Inr (projr (performCalc demoHost (Some [Some (mkBox 2 3 1 4)]) (Some demoPallet)))"
    by simp
  have b: "res_error (projr (performCalc demoHost (Some [Some (mkBox 2 3 1 4)]) (Some demoPallet))) = None"
    by code_simp
  have c: "chooseBestLayerPattern 5 4 demoA demoB 4 = Some demoPattern" by code_simp
  have d: "perLayer demoPattern + 1 = 4" by code_simp
  have d2: "2 \<le> \<lfloor>(pal_maxHeight demoPallet - pal_height demoPallet) / box_height (mkBox 2 3 1 4)\<rfloor>"
    by code_simp
  have e: "materializeLayerCells demoPattern 5 4 = Inr demoCells" by code_simp
  have f: "map (layerCentres 1) (res_pallets (projr (performCalc demoHost (Some [Some (mkBox 2 3 1 4)]) (Some demoPallet))))
       = [[(- (1499999 / 1000000), 0)]]"
    by code_simp
  have g: "cornerCentres demoPallet demoCells
       = [(999999 / 1000000, - (999999 / 1000000)), (999999 / 1000000, 999999 / 1000000)]"
    by code_simp
  have h: "(- (1499999 / 1000000), 0) \<notin> set (cornerCentres demoPallet demoCells)"
    unfolding g by simp
  show ?thesis
    using a b c d d2 e f g h by blast
qed


section \<open>Clamping of the placement centres\<close>

lemma cellCentre_placeCell:
  "(pl_x (placeCell base pallet l c n), pl_z (placeCell base pallet l c n)) = cellCentre pallet c"
  by (simp add: placeCell_def cellCentre_def Let_def split: prod.splits)

text \<open>With room for the tolerance on both sides the clamp keeps the footprint inside
  the deck shrunk by \<open>EPS\<close>.\<close>

lemma clamp_x_iff:
  "\<bar>fst (clampCenterInsidePallet cx cz flen fwid palletW palletD)\<bar> + flen / 2 < palletW / 2
     \<longleftrightarrow> flen + EPS < palletW"
  by (auto simp: clampCenterInsidePallet_def Let_def abs_if max_def min_def field_simps EPS_def)

lemma clamp_z_iff:
  "\<bar>snd (clampCenterInsidePallet cx cz flen fwid palletW palletD)\<bar> + fwid / 2 < palletD / 2
     \<longleftrightarrow> fwid + EPS < palletD"
  by (auto simp: clampCenterInsidePallet_def Let_def abs_if max_def min_def field_simps EPS_def)

lemma clamp_x_with_room:
  assumes "flen + 2 * EPS \<le> palletW"
  shows "\<bar>fst (clampCenterInsidePallet cx cz flen fwid palletW palletD)\<bar> + flen / 2
           \<le> palletW / 2 - EPS"
  using assms by (auto simp: clampCenterInsidePallet_def Let_def abs_if max_def min_def field_simps)

lemma clamp_z_with_room:
  assumes "fwid + 2 * EPS \<le> palletD"
  shows "\<bar>snd (clampCenterInsidePallet cx cz flen fwid palletW palletD)\<bar> + fwid / 2
           \<le> palletD / 2 - EPS"
  using assms by (auto simp: clampCenterInsidePallet_def Let_def abs_if max_def min_def field_simps)

lemma placeCells_from:
  "placeCells base pal l cs n = (ps, n') \<Longrightarrow>
   \<forall>q \<in> set ps. \<exists>c \<in> set cs. \<exists>m. q = placeCell base pal l c m"
proof (induction cs arbitrary: n ps n')
  case Nil
  then show ?case by simp
next
  case (Cons c cs)
  obtain ps0 n0 where r: "placeCells base pal l cs (n + 1) = (ps0, n0)"
    by (cases "placeCells base pal l cs (n + 1)")
  then have e: "ps = placeCell base pal l c n # ps0"
    using Cons.prems by simp
  show ?case
    using Cons.IH[OF r] unfolding e by auto
qed

lemma fullLayerLoop_from:
  assumes "materializeLayerCells pattern (pal_width pal) (pal_depth pal) = Inr cells"
  shows "fullLayerLoop pattern base pal k l n = Inr (ps, n') \<Longrightarrow>
         \<forall>q \<in> set ps. \<exists>c \<in> set cells. \<exists>l' m. q = placeCell base pal l' c m"
proof (induction k arbitrary: l n ps n')
  case 0
  then show ?case by simp
next
  case (Suc k)
  obtain ps0 n0 where r: "placeCells base pal l cells n = (ps0, n0)"
    by (cases "placeCells base pal l cells n")
  from Suc.prems assms r obtain qs where
    q: "fullLayerLoop pattern base pal k (l + 1) n0 = Inr (qs, n')" and e: "ps = ps0 @ qs"
    by (auto split: sum.splits)
  have "\<forall>q \<in> set ps0. \<exists>c \<in> set cells. \<exists>l' m. q = placeCell base pal l' c m"
    using placeCells_from[OF r] by blast
  then show ?case
    using Suc.IH[OF q] unfolding e by auto
qed

lemma pick_subset:
  assumes "0 < r" and "\<lceil>r\<rceil> \<le> int (length cells)"
  shows "set (pickCornerEdgePartialCells cells r) \<subseteq> set cells"
proof -
  from pick_exact[OF assms] obtain idxs where
    "pickCornerEdgePartialCells cells r = map (\<lambda>i. cells ! i) idxs" "set idxs \<subseteq> {..< length cells}"
    by blast
  then show ?thesis by auto
qed

lemma buildPlacements_from:
  assumes mat: "materializeLayerCells pattern (pal_width pal) (pal_depth pal) = Inr cells"
    and K: "perLayer pattern = K" "1 \<le> K" "int (length cells) = K"
    and t: "0 \<le> t" "t \<le> of_int (K * L)"
    and b: "buildPlacementsForPallet t L pattern base pal idc af = Inr (ps, lu, idc')"
  shows "\<forall>q \<in> set ps. \<exists>c \<in> set cells. \<exists>l m. q = placeCell base pal l c m"
proof -
  define F where "F = \<lfloor>t / of_int K\<rfloor>"
  define r where "r = t - of_int (F * K)"
  from buildPlacements_unfold[OF mat K t, of base idc af] obtain ps0 where
    fl: "fullLayerLoop pattern base pal (nat F) 0 idc
               = Inr (ps0, idc + nat F * length cells)" and
    rK: "r < of_int K" and
    bp: "buildPlacementsForPallet t L pattern base pal idc af =
        (if 0 < r then
           (case placeCells base pal (nat F) (pickCornerEdgePartialCells cells r)
                   (idc + nat F * length cells) of
              (qs, idc'') \<Rightarrow> Inr (ps0 @ qs, nat F + 1, idc''))
         else Inr (ps0, nat F, idc + nat F * length cells))"
    unfolding F_def r_def by blast
  note f0 = fullLayerLoop_from[OF mat fl]
  show ?thesis
  proof (cases "0 < r")
    case False
    then have "ps = ps0" using bp b by simp
    then show ?thesis using f0 by simp
  next
    case True
    obtain qs n2 where
      pc: "placeCells base pal (nat F) (pickCornerEdgePartialCells cells r)
             (idc + nat F * length cells) = (qs, n2)"
      by (cases "placeCells base pal (nat F) (pickCornerEdgePartialCells cells r)
             (idc + nat F * length cells)")
    then have e: "ps = ps0 @ qs" using bp b True by simp
    have "\<lceil>r\<rceil> \<le> K" using rK by (simp add: ceiling_le_iff less_imp_le)
    then have sub: "set (pickCornerEdgePartialCells cells r) \<subseteq> set cells"
      using pick_subset[OF True, of cells] K(3) by simp
    have "\<forall>q \<in> set qs. \<exists>c \<in> set cells. \<exists>l m. q = placeCell base pal l c m"
      using placeCells_from[OF pc] sub by blast
    then show ?thesis using f0 unfolding e by auto
  qed
qed

lemma palletLoop_from:
  assumes mat: "materializeLayerCells pattern (pal_width pal) (pal_depth pal) = Inr cells"
    and K: "perLayer pattern = K" "1 \<le> K" "int (length cells) = K"
  shows "\<forall>t \<in> set targets. 0 \<le> t \<and> t \<le> of_int (K * L) \<Longrightarrow>
         palletLoop pattern base pal K L af targets p idc = Inr prs \<Longrightarrow>
         \<forall>pr \<in> set prs. \<forall>q \<in> set (placements pr).
            \<exists>c \<in> set cells. \<exists>l m. q = placeCell base pal l c m"
proof (induction targets arbitrary: p idc prs)
  case Nil
  then show ?case by simp
next
  case (Cons t targets)
  have t: "0 \<le> t" "t \<le> of_int (K * L)" using Cons.prems(1) by simp_all
  from buildPlacements_count[OF mat K t, of base idc af] obtain ps lu idc' where
    b: "buildPlacementsForPallet t L pattern base pal idc af = Inr (ps, lu, idc')"
    by blast
  have mn: "min t (of_int (K * L)) = t" using t(2) by (rule min_absorb1)
  from Cons.prems(2) b obtain pr rest where
    r: "palletLoop pattern base pal K L af targets (p + 1) idc' = Inr rest" and
    e: "prs = pr # rest" and pp: "placements pr = ps"
    by (auto simp: Let_def mn simp del: of_int_mult split: sum.splits)
  have "\<forall>q \<in> set ps. \<exists>c \<in> set cells. \<exists>l m. q = placeCell base pal l c m"
    using buildPlacements_from[OF mat K t b] .
  moreover have "\<forall>pr \<in> set rest. \<forall>q \<in> set (placements pr).
            \<exists>c \<in> set cells. \<exists>l m. q = placeCell base pal l c m"
    using Cons.IH[OF _ r] Cons.prems(1) by simp
  ultimately show ?case unfolding e using pp by simp
qed

lemma blockCells_fp: "c \<in> set (blockCells x0 z0 b) \<Longrightarrow> cell_fp c = fp b"
  by (auto simp: blockCells_def)

lemma materialize_fp:
  assumes "materializeLayerCells p W D = Inr cells" and "c \<in> set cells"
  shows "\<exists>blk \<in> set (blocks p). cell_fp c = fp blk"
proof (cases "kind p")
  case Grid
  then obtain b bs x0 z0 where "blocks p = b # bs" "cells = blockCells x0 z0 b"
    using assms(1) by (auto simp: materializeLayerCells_def Let_def split: list.splits)
  then show ?thesis using blockCells_fp assms(2) by auto
next
  case SplitX
  then obtain b1 b2 bs x1 z1 x2 z2 where
    "blocks p = b1 # b2 # bs" "cells = blockCells x1 z1 b1 @ blockCells x2 z2 b2"
    using assms(1) by (auto simp: materializeLayerCells_def Let_def split: list.splits)
  then show ?thesis using blockCells_fp assms(2) by auto
next
  case SplitZ
  then obtain b1 b2 bs x1 z1 x2 z2 where
    "blocks p = b1 # b2 # bs" "cells = blockCells x1 z1 b1 @ blockCells x2 z2 b2"
    using assms(1) by (auto simp: materializeLayerCells_def Let_def split: list.splits)
  then show ?thesis using blockCells_fp assms(2) by auto
qed

lemma candidate_blocks_fp:
  assumes "p \<in> set (candidates width depth a b)" and "blk \<in> set (blocks p)"
  shows "fp blk = a \<or> fp blk = b"
proof -
  from assms(1) consider
      "p = buildGridPattern width depth a" | "p = buildGridPattern width depth b"
    | "p \<in> set (buildSplitXPatterns width depth a b)"
    | "p \<in> set (buildSplitXPatterns width depth b a)"
    | "p \<in> set (buildSplitZPatterns width depth a b)"
    | "p \<in> set (buildSplitZPatterns width depth b a)"
    by (auto simp: candidates_def)
  then show ?thesis
  proof cases
    case 1
    then show ?thesis using assms(2) by (auto simp: buildGridPattern_def Let_def)
  next
    case 2
    then show ?thesis using assms(2) by (auto simp: buildGridPattern_def Let_def)
  next
    case 3
    then obtain k where "p = splitXPattern width depth a b k"
      unfolding buildSplitXPatterns_def using splitXLoop_mem by blast
    then show ?thesis using assms(2) by (auto simp: splitXPattern_def Let_def)
  next
    case 4
    then obtain k where "p = splitXPattern width depth b a k"
      unfolding buildSplitXPatterns_def using splitXLoop_mem by blast
    then show ?thesis using assms(2) by (auto simp: splitXPattern_def Let_def)
  next
    case 5
    then obtain k where "p = splitZPattern width depth a b k"
      unfolding buildSplitZPatterns_def using splitZLoop_mem by blast
    then show ?thesis using assms(2) by (auto simp: splitZPattern_def Let_def)
  next
    case 6
    then obtain k where "p = splitZPattern width depth b a k"
      unfolding buildSplitZPatterns_def using splitZLoop_mem by blast
    then show ?thesis using assms(2) by (auto simp: splitZPattern_def Let_def)
  qed
qed

lemma candidate_cells_fp:
  assumes "p \<in> set (candidates width depth a b)"
    and "materializeLayerCells p W D = Inr cells" and "c \<in> set cells"
  shows "cell_fp c = a \<or> cell_fp c = b"
  using materialize_fp[OF assms(2,3)] candidate_blocks_fp[OF assms(1)] by auto

text \<open>
  C7 (no overhang).  The clamp keeps its promise exactly where the footprint is
  shorter than the deck by more than the tolerance: for every placement of a non-error
  result, \<open>|x| + len/2 < palletWidth/2\<close> holds if and only if
  \<open>len + 1e-6 < palletWidth\<close>, and \<open>|z| + wid/2 < palletDepth/2\<close> if and only if
  \<open>wid + 1e-6 < palletDepth\<close>; with \<open>2e-6\<close> of room the footprint even stays inside
  the deck shrunk by \<open>1e-6\<close>.  For a footprint within \<open>1e-6\<close> of the deck size, which
  the pattern filter accepts, the interval of the clamp is empty and the clamp returns
  its lower end, so that every such placement overhangs.
\<close>

theorem no_overhang_iff_room:
  assumes ok: "performCalc host boxes pallet = Inr res" and ne: "res_error res = None"
    and pal: "pallet = Some pal"
    and pr: "pr \<in> set (res_pallets res)" and p: "p \<in> set (placements pr)"
  shows "(\<bar>pl_x p\<bar> + placedLen p / 2 < pal_width pal / 2
            \<longleftrightarrow> placedLen p + 1 / 1000000 < pal_width pal)
       \<and> (\<bar>pl_z p\<bar> + placedWid p / 2 < pal_depth pal / 2
            \<longleftrightarrow> placedWid p + 1 / 1000000 < pal_depth pal)
       \<and> (placedLen p + 2 / 1000000 \<le> pal_width pal \<longrightarrow>
            \<bar>pl_x p\<bar> + placedLen p / 2 \<le> pal_width pal / 2 - 1 / 1000000)
       \<and> (placedWid p + 2 / 1000000 \<le> pal_depth pal \<longrightarrow>
            \<bar>pl_z p\<bar> + placedWid p / 2 \<le> pal_depth pal / 2 - 1 / 1000000)"
proof -
  from performCalc_success[OF ok[unfolded pal] ne] obtain pal' v vs pattern cells targets prs where
    pp: "Some pal = Some pal'" and
    cand: "pattern \<in> set (candidates (pal_width pal') (pal_depth pal')
         \<lparr>len = box_length v, wid = box_width v, rot = 0\<rparr>
         \<lparr>len = box_width v, wid = box_length v, rot = 90\<rparr>)" and
    mat: "materializeLayerCells pattern (pal_width pal') (pal_depth pal') = Inr cells" and
    K1: "1 \<le> perLayer pattern" and lc: "int (length cells) = perLayer pattern" and
    ts: "\<forall>t \<in> set targets. 0 \<le> t
          \<and> t \<le> of_int (perLayer pattern
                 * \<lfloor>(pal_maxHeight pal' - pal_height pal' + EPS) / box_height v\<rfloor>)" and
    pl: "palletLoop pattern (v\<lparr>box_quantity := sum_list (map box_quantity (v # vs))\<rparr>) pal'
         (perLayer pattern) \<lfloor>(pal_maxHeight pal' - pal_height pal' + EPS) / box_height v\<rfloor>
         (list_all (\<lambda>t. js_fmod t (of_int (perLayer pattern)) = 0) targets) targets 0 0 = Inr prs" and
    rp: "res_pallets res = prs"
    by blast
  have pe: "pal' = pal" using pp by simp
  note cand = cand[unfolded pe] and mat = mat[unfolded pe] and ts = ts[unfolded pe]
    and pl = pl[unfolded pe]
  define base where "base = v\<lparr>box_quantity := sum_list (map box_quantity (v # vs))\<rparr>"
  from palletLoop_from[OF mat refl K1 lc ts pl] pr p rp obtain c l m where
    c: "c \<in> set cells" and pc: "p = placeCell base pal l c m"
    unfolding base_def by blast
  have fpc: "cell_fp c = \<lparr>len = box_length v, wid = box_width v, rot = 0\<rparr>
      \<or> cell_fp c = \<lparr>len = box_width v, wid = box_length v, rot = 90\<rparr>"
    using candidate_cells_fp[OF cand mat c] .
  have x: "pl_x p = fst (clampCenterInsidePallet
              ((cell_x c + len (cell_fp c) / 2) - pal_width pal / 2)
              ((cell_z c + wid (cell_fp c) / 2) - pal_depth pal / 2)
              (len (cell_fp c)) (wid (cell_fp c)) (pal_width pal) (pal_depth pal))"
    and z: "pl_z p = snd (clampCenterInsidePallet
              ((cell_x c + len (cell_fp c) / 2) - pal_width pal / 2)
              ((cell_z c + wid (cell_fp c) / 2) - pal_depth pal / 2)
              (len (cell_fp c)) (wid (cell_fp c)) (pal_width pal) (pal_depth pal))"
    and r: "pl_rotation p = rot (cell_fp c)"
    and bl: "box_length (pl_box p) = box_length v" and bw: "box_width (pl_box p) = box_width v"
    unfolding pc by (simp_all add: placeCell_def Let_def base_def split: prod.splits)
  have fl: "placedLen p = len (cell_fp c)" and fw: "placedWid p = wid (cell_fp c)"
    using fpc r bl bw by (auto simp: placedLen_def placedWid_def)
  show ?thesis
    unfolding x z fl fw clamp_x_iff clamp_z_iff
    using clamp_x_with_room[of "len (cell_fp c)" "pal_width pal"]
      clamp_z_with_room[of "wid (cell_fp c)" "pal_depth pal"]
    by (simp add: EPS_def)
qed

theorem no_overhang_iff_room_witness:
  "performCalc demoHost demoBoxes (Some demoPallet) = Inr demoResult \<and> res_error demoResult = None
   \<and> hd (res_pallets demoResult) \<in> set (res_pallets demoResult)
   \<and> hd (placements (hd (res_pallets demoResult))) \<in> set (placements (hd (res_pallets demoResult)))
   \<and> placedLen (hd (placements (hd (res_pallets demoResult)))) + 2 / 1000000 \<le> pal_width demoPallet
   \<and> placedLen (hd (placements (hd (res_pallets demoResult)))) + 1 / 1000000 < pal_width demoPallet
   \<and> \<bar>pl_x (hd (placements (hd (res_pallets demoResult))))\<bar>
        + placedLen (hd (placements (hd (res_pallets demoResult)))) / 2
       < pal_width demoPallet / 2
   \<and> \<bar>pl_x (hd (placements (hd (res_pallets demoResult))))\<bar>
        + placedLen (hd (placements (hd (res_pallets demoResult)))) / 2
       \<le> pal_width demoPallet / 2 - 1 / 1000000
   \<and> placedWid (hd (placements (hd (res_pallets demoResult)))) + 2 / 1000000 \<le> pal_depth demoPallet
   \<and> placedWid (hd (placements (hd (res_pallets demoResult)))) + 1 / 1000000 < pal_depth demoPallet
   \<and> \<bar>pl_z (hd (placements (hd (res_pallets demoResult))))\<bar>
        + placedWid (hd (placements (hd (res_pallets demoResult)))) / 2
       < pal_depth demoPallet / 2
   \<and> \<bar>pl_z (hd (placements (hd (res_pallets demoResult))))\<bar>
        + placedWid (hd (placements (hd (res_pallets demoResult)))) / 2
       \<le> pal_depth demoPallet / 2 - 1 / 1000000"
proof -
  have "res_pallets demoResult \<noteq> []" by code_simp
  then have a: "hd (res_pallets demoResult) \<in> set (res_pallets demoResult)" by simp
  have "placements (hd (res_pallets demoResult)) \<noteq> []" by code_simp
  then have b: "hd (placements (hd (res_pallets demoResult)))
                  \<in> set (placements (hd (res_pallets demoResult)))"
    by simp
  have c: "placedLen (hd (placements (hd (res_pallets demoResult)))) + 2 / 1000000
             \<le> pal_width demoPallet"
    by code_simp
  have c': "placedLen (hd (placements (hd (res_pallets demoResult)))) + 1 / 1000000
             < pal_width demoPallet"
    by code_simp
  have d: "placedWid (hd (placements (hd (res_pallets demoResult)))) + 2 / 1000000
             \<le> pal_depth demoPallet"
    by code_simp
  have d': "placedWid (hd (placements (hd (res_pallets demoResult)))) + 1 / 1000000
             < pal_depth demoPallet"
    by code_simp
  show ?thesis
    using no_overhang_iff_room[OF demo_ok demo_no_error refl a b]
      demo_ok demo_no_error a b c c' d d'
    by blast
qed

text \<open>The failing input: one box whose footprint is the whole deck, 48 x 40 on a
  48 x 40 deck.  The pattern filter accepts it and the one cell of the layer has its
  centre at the centre of the deck, where the box covers the deck exactly.  The clamp,
  which is there to keep footprints on the deck, has the empty interval
  \<open>minCx = 1e-6 > maxCx = -1e-6\<close> and returns its lower end: the box is placed,
  unrotated, at \<open>(1e-6, 1e-6)\<close> and reaches \<open>1e-6\<close> beyond the deck in \<open>x\<close> and in
  \<open>z\<close>.\<close>

theorem overhang_at_full_deck:
  "performCalc demoHost fullDeckBoxes (Some fullDeckPallet) = Inr fullDeckResult
   \<and> res_error fullDeckResult = None
   \<and> materializeLayerCells fullDeckPattern 48 40
       = Inr [\<lparr>cell_x = 0, cell_z = 0, cell_fp = \<lparr>len = 48, wid = 40, rot = 0\<rparr>\<rparr>]
   \<and> rawCentre fullDeckPallet \<lparr>cell_x = 0, cell_z = 0, cell_fp = \<lparr>len = 48, wid = 40, rot = 0\<rparr>\<rparr>
       = (0, 0)
   \<and> map (layerCentres 0) (res_pallets fullDeckResult) = [[(1 / 1000000, 1 / 1000000)]]
   \<and> map (\<lambda>pr. map (\<lambda>p. (placedLen p, placedWid p)) (placements pr)) (res_pallets fullDeckResult)
       = [[(48, 40)]]
   \<and> \<not> (\<bar>1 / 1000000\<bar> + 48 / 2 < pal_width fullDeckPallet / 2)
   \<and> \<not> (\<bar>1 / 1000000\<bar> + 40 / 2 < pal_depth fullDeckPallet / 2)
   \<and> pal_width fullDeckPallet / 2 < 1 / 1000000 + 48 / 2
   \<and> pal_depth fullDeckPallet / 2 < 1 / 1000000 + 40 / 2"
proof -
  have "\<not> isl (performCalc demoHost fullDeckBoxes (Some fullDeckPallet))" by code_simp
  then have ok: "performCalc demoHost fullDeckBoxes (Some fullDeckPallet) = Inr fullDeckResult"
    unfolding fullDeckResult_def by simp
  have a: "res_error fullDeckResult = None" by code_simp
  have m: "materializeLayerCells fullDeckPattern 48 40
       = Inr [\<lparr>cell_x = 0, cell_z = 0, cell_fp = \<lparr>len = 48, wid = 40, rot = 0\<rparr>\<rparr>]"
    by code_simp
  have r: "rawCentre fullDeckPallet \<lparr>cell_x = 0, cell_z = 0, cell_fp = \<lparr>len = 48, wid = 40, rot = 0\<rparr>\<rparr>
       = (0, 0)"
    by code_simp
  have b: "map (layerCentres 0) (res_pallets fullDeckResult) = [[(1 / 1000000, 1 / 1000000)]]"
    by code_simp
  have c: "map (\<lambda>pr. map (\<lambda>p. (placedLen p, placedWid p)) (placements pr)) (res_pallets fullDeckResult)
       = [[(48, 40)]]"
    by code_simp
  have w: "pal_width fullDeckPallet = 48" "pal_depth fullDeckPallet = 40"
    by (simp_all add: fullDeckPallet_def mkPallet_def)
  show ?thesis
    using ok a m r b c by (simp add: w)
qed



end
